theory Spec2Isabelle
  imports Complex_Main "HOL-Library.Extended_Nat" "HOL-Library.Multiset"
begin

section \<open>Values of the Python program\<close>

text \<open>
  The exceptions that \<^verbatim>\<open>model.py\<close> can raise, as values. A function of the source that
  may raise returns \<open>error + 'a\<close>, with \<open>Inl\<close> for the raised exception.
\<close>

datatype error =
  AttributeError | ZeroDivisionError | ValueError | NameError | IndexError | Exception

text \<open>
  Python and numpy floats. Finite values are idealised as reals (no rounding, no
  overflow); the infinities and the not-a-number value are kept, because the source
  produces them on purpose (\<^verbatim>\<open>np.infty\<close> in \<^verbatim>\<open>get_accessibility\<close>) and
  numpy produces them where Python would raise.
\<close>

datatype pyfloat = Fin real | PInf | NInf | NaN

fun fmul :: "real \<Rightarrow> pyfloat \<Rightarrow> pyfloat" where
  "fmul c (Fin x) = Fin (c * x)"
| "fmul c PInf = (if 0 < c then PInf else if c < 0 then NInf else NaN)"
| "fmul c NInf = (if 0 < c then NInf else if c < 0 then PInf else NaN)"
| "fmul c NaN = NaN"

fun fadd :: "pyfloat \<Rightarrow> pyfloat \<Rightarrow> pyfloat" where
  "fadd (Fin x) (Fin y) = Fin (x + y)"
| "fadd NaN _ = NaN"
| "fadd _ NaN = NaN"
| "fadd PInf NInf = NaN"
| "fadd NInf PInf = NaN"
| "fadd PInf _ = PInf"
| "fadd _ PInf = PInf"
| "fadd NInf _ = NInf"
| "fadd _ NInf = NInf"

text \<open>The comparisons of IEEE floats: every comparison with \<open>NaN\<close> is false.\<close>

fun fle :: "pyfloat \<Rightarrow> pyfloat \<Rightarrow> bool" where
  "fle NaN _ = False"
| "fle _ NaN = False"
| "fle NInf _ = True"
| "fle _ PInf = True"
| "fle (Fin x) (Fin y) = (x \<le> y)"
| "fle _ _ = False"

fun feq :: "pyfloat \<Rightarrow> pyfloat \<Rightarrow> bool" where
  "feq NaN _ = False"
| "feq _ NaN = False"
| "feq a b = (a = b)"

text \<open>
  A two-dimensional numpy array: its shape and its entries. Entries outside the shape
  are never read by the source.
\<close>

record matrix =
  shape :: "nat \<times> nat"
  entry :: "nat \<Rightarrow> nat \<Rightarrow> real"

definition np_zeros :: "nat \<times> nat \<Rightarrow> matrix" where
  "np_zeros s = \<lparr> shape = s, entry = (\<lambda>i j. 0) \<rparr>"

definition entries :: "matrix \<Rightarrow> real list" where
  "entries m = concat (map (\<lambda>i. map (\<lambda>j. entry m i j) [0..<snd (shape m)]) [0..<fst (shape m)])"

text \<open>\<^verbatim>\<open>np.max\<close> raises ValueError on an array without entries.\<close>

definition np_max :: "matrix \<Rightarrow> error + real" where
  "np_max m = (case entries m of [] \<Rightarrow> Inl ValueError | v # vs \<Rightarrow> Inr (fold max vs v))"

text \<open>\<^verbatim>\<open>np.insert(m, k, 0, axis=0)\<close> for \<open>k\<close> below the first extent.\<close>

definition insert_row :: "nat \<Rightarrow> matrix \<Rightarrow> matrix" where
  "insert_row k m =
     \<lparr> shape = (Suc (fst (shape m)), snd (shape m)),
       entry = (\<lambda>i j. if i < k then entry m i j else if i = k then 0 else entry m (i - 1) j) \<rparr>"

text \<open>\<^verbatim>\<open>np.insert(m, k, 0, axis=1)\<close> for \<open>k\<close> below the second extent.\<close>

definition insert_col :: "nat \<Rightarrow> matrix \<Rightarrow> matrix" where
  "insert_col k m =
     \<lparr> shape = (fst (shape m), Suc (snd (shape m))),
       entry = (\<lambda>i j. if j < k then entry m i j else if j = k then 0 else entry m i (j - 1)) \<rparr>"

text \<open>The loop over \<^verbatim>\<open>self.aisles_x\<close>: insert a zero row, or append one at the end.\<close>

fun splice_rows :: "nat list \<Rightarrow> matrix \<Rightarrow> matrix" where
  "splice_rows [] m = m"
| "splice_rows (x # xs) m =
     splice_rows xs (if x < fst (shape m) then insert_row x m
                     else insert_row (fst (shape m)) m)"

fun splice_cols :: "nat list \<Rightarrow> matrix \<Rightarrow> matrix" where
  "splice_cols [] m = m"
| "splice_cols (y # ys) m =
     splice_cols ys (if y < snd (shape m) then insert_col y m
                     else insert_col (snd (shape m)) m)"

definition scale_by :: "real \<Rightarrow> matrix \<Rightarrow> matrix" where
  "scale_by c m = \<lparr> shape = shape m, entry = (\<lambda>i j. entry m i j / c) \<rparr>"

section \<open>ClassroomDesign\<close>

record classroom_design =
  width :: nat
  num_rows :: nat
  aisles_x :: "nat list"
  aisles_y :: "nat list"
  entrances :: "(nat \<times> nat) list"
  pos_utilities :: matrix
  max_pass :: int
  seat_count :: int

text \<open>
  The loop that defines the vertical aisles: one aisle after every block but the last,
  \<open>cur\<close> is \<^verbatim>\<open>current_x\<close>.
\<close>

fun vertical_aisles :: "nat \<Rightarrow> nat list \<Rightarrow> nat list" where
  "vertical_aisles cur [] = []"
| "vertical_aisles cur [b] = []"
| "vertical_aisles cur (b # bs) = (cur + b) # vertical_aisles (cur + b + 1) bs"

text \<open>
  \<^verbatim>\<open>int((b-1)/2)\<close>: true division, then truncation towards zero (so \<open>0\<close> for \<open>b = 0\<close>).
  The quotient is a float in the source; it is the exact quotient for every block of
  fewer than \<open>2 ^ 53\<close> seats, and is taken as exact here.
\<close>

definition half_trunc :: "int \<Rightarrow> int" where
  "half_trunc z = (if z < 0 then - ((- z) div 2) else z div 2)"

text \<open>The list \<^verbatim>\<open>max_pass_per_block\<close>; \<open>i\<close> is the index of the first block of \<open>bs\<close> and \<open>n\<close> the number of blocks.\<close>

fun max_pass_per_block :: "nat \<Rightarrow> nat \<Rightarrow> nat list \<Rightarrow> int list" where
  "max_pass_per_block i n [] = []"
| "max_pass_per_block i n (b # bs) =
     (if 0 < i \<and> int i < int n - 1 then half_trunc (int b - 1) else int b - 1)
       # max_pass_per_block (Suc i) n bs"

text \<open>\<^verbatim>\<open>sum(blocks) + len(blocks) - 1\<close>, for a non-empty block list.\<close>

definition grid_width :: "nat list \<Rightarrow> nat" where
  "grid_width blocks = sum_list blocks + length blocks - 1"

text \<open>
  \<^verbatim>\<open>ClassroomDesign.__init__\<close>. The default arguments \<^verbatim>\<open>None\<close> are \<open>None\<close> here.
  With an empty block list the width is \<open>-1\<close>: no array has that extent, and
  \<^verbatim>\<open>np.zeros\<close> raises ValueError on it. Coordinates are natural numbers: for a
  grid of width 0 the second default entrance of the source is \<open>(-1, 0)\<close> and is
  \<open>(0, 0)\<close> here; both lie outside the empty grid.
\<close>

definition ClassroomDesign ::
  "nat list \<Rightarrow> nat \<Rightarrow> matrix option \<Rightarrow> (nat \<times> nat) list option \<Rightarrow> nat list option
     \<Rightarrow> error + classroom_design" where
  "ClassroomDesign blocks rows pos_utils entr ais_y =
    (let w = grid_width blocks;
         ax = vertical_aisles 0 blocks;
         ay = (case ais_y of None \<Rightarrow> [0] | Some a \<Rightarrow> a);
         en = (case entr of None \<Rightarrow> [(0, 0), (w - 1, 0)] | Some e \<Rightarrow> e)
     in case pos_utils of
          None \<Rightarrow> Inl AttributeError
        | Some pu0 \<Rightarrow>
           if blocks = [] then Inl ValueError
           else
             let pu = (if (int (fst (shape pu0)), int (snd (shape pu0)))
                            = (int w - int (length ax), int rows - int (length ay))
                       then splice_cols ay (splice_rows ax pu0) else pu0);
                 mp = (case max_pass_per_block 0 (length blocks) blocks of
                         [] \<Rightarrow> 0 | v # vs \<Rightarrow> fold max vs v);
                 sc = (int w - int (length ax)) * (int rows - int (length ay))
             in if shape pu = (w, rows)
                then (case np_max pu of
                        Inl e \<Rightarrow> Inl e
                      | Inr mx \<Rightarrow>
                          Inr \<lparr> width = w, num_rows = rows, aisles_x = ax, aisles_y = ay,
                                entrances = en,
                                pos_utilities = (if 0 < mx then scale_by mx pu
                                                 else np_zeros (w, rows)),
                                max_pass = mp, seat_count = sc \<rparr>)
                else Inr \<lparr> width = w, num_rows = rows, aisles_x = ax, aisles_y = ay,
                           entrances = en, pos_utilities = np_zeros (w, rows),
                           max_pass = mp, seat_count = sc \<rparr>)"

section \<open>The agents and the state of a ClassroomModel\<close>

text \<open>
  A Student object. Student objects are referred to by their \<^verbatim>\<open>unique_id\<close>, the
  number of students admitted before them, and live in a heap indexed by it. \<open>pos\<close> is
  \<open>None\<close> until the grid places the student. The attribute
  \<^verbatim>\<open>will_to_change_seat\<close> is set to False in \<^verbatim>\<open>Student.__init__\<close> and assigned
  nowhere else, so it is not a field here and the branch of \<^verbatim>\<open>Student.step\<close> that
  tests it is not taken.
\<close>

record student =
  unique_id :: nat
  sociability :: real
  seated :: bool
  initial_happiness :: pyfloat
  pos :: "(nat \<times> nat) option"

text \<open>
  What a grid cell holds: Seat objects, with their \<^verbatim>\<open>student\<close> field (the id of the
  student, or \<open>None\<close>), and references to Student objects. A Seat never moves, so its
  \<^verbatim>\<open>pos\<close> is the cell that holds it.
\<close>

datatype agent = Seat "nat option" | Student nat

text \<open>
  The state of a ClassroomModel. \<open>grid\<close> is mesa's MultiGrid (a list of agents per
  cell, of extent \<open>width\<close> by \<open>num_rows\<close> of the classroom), \<open>schedule\<close> is the agent
  list of mesa's RandomActivation, \<open>rand\<close> is the stream of draws that the model's own
  \<^verbatim>\<open>np.random.RandomState(seed)\<close> still has to deliver, and \<open>stdout\<close> collects what
  is printed. The tie matrix \<open>social_network\<close> comes from the module \<^verbatim>\<open>social.network\<close>.
\<close>

record classroom_model =
  classroom :: classroom_design
  coefs :: "real \<times> real \<times> real \<times> real"
  random_seat_choice :: bool
  max_num_agents :: int
  social_network :: "nat \<Rightarrow> nat \<Rightarrow> real"
  sociability_sequence :: "real list"
  sociability_range :: "real \<times> real"
  grid :: "nat \<times> nat \<Rightarrow> agent list"
  schedule :: "nat list"
  students :: "nat \<Rightarrow> student"
  rand :: "nat \<Rightarrow> nat"
  stdout :: "string list"

text \<open>
  The two interaction matrices of \<^verbatim>\<open>ClassroomModel.__init__\<close> are the same constant:
  the transpose of \<^verbatim>\<open>[ [0,0,0],[0.5,0,0.5],[0,0,0]]\<close>.
\<close>

definition friendship_interaction_matrix :: matrix where
  "friendship_interaction_matrix =
     \<lparr> shape = (3, 3), entry = (\<lambda>i j. if (i = 0 \<or> i = 2) \<and> j = 1 then 1 / 2 else 0) \<rparr>"

definition sociability_interaction_matrix :: matrix where
  "sociability_interaction_matrix =
     \<lparr> shape = (3, 3), entry = (\<lambda>i j. if (i = 0 \<or> i = 2) \<and> j = 1 then 1 / 2 else 0) \<rparr>"

text \<open>mesa's \<^verbatim>\<open>out_of_bounds\<close> for a cell with natural coordinates.\<close>

definition out_of_bounds :: "classroom_model \<Rightarrow> nat \<times> nat \<Rightarrow> bool" where
  "out_of_bounds m p = (width (classroom m) \<le> fst p \<or> num_rows (classroom m) \<le> snd p)"

text \<open>\<^verbatim>\<open>get_cell_list_contents\<close> on a list of cells inside the grid.\<close>

definition get_cell_list_contents :: "classroom_model \<Rightarrow> (nat \<times> nat) list \<Rightarrow> agent list" where
  "get_cell_list_contents m cells = concat (map (grid m) cells)"

section \<open>Seat\<close>

definition get_position_utility :: "classroom_model \<Rightarrow> nat \<times> nat \<Rightarrow> real" where
  "get_position_utility m p = entry (pos_utilities (classroom m)) (fst p) (snd p)"

text \<open>
  \<^verbatim>\<open>xs[np.argmin(ds)]\<close>: the first element of a non-empty list whose distance \<open>d\<close> is
  least.
\<close>

definition nearest :: "(nat \<Rightarrow> nat) \<Rightarrow> nat list \<Rightarrow> nat" where
  "nearest d xs = fold (\<lambda>i b. if d i < d b then i else b) (tl xs) (hd xs)"

text \<open>The loop \<^verbatim>\<open>if type(agent) is Student: count += 1\<close>.\<close>

definition count_students :: "agent list \<Rightarrow> nat" where
  "count_students as = length (filter (\<lambda>a. case a of Student k \<Rightarrow> True | Seat s \<Rightarrow> False) as)"

definition count_left :: "classroom_model \<Rightarrow> nat \<times> nat \<Rightarrow> enat" where
  "count_left m p =
     (let x = fst p; y = snd p;
          aisles_left = filter (\<lambda>i. i < x) (aisles_x (classroom m))
      in if aisles_left = [] then \<infinity>
         else let aisle_left = nearest (\<lambda>i. x - i) aisles_left;
                  row_left = map (\<lambda>i. (i, y)) [aisle_left + 1 ..< x]
              in enat (count_students (get_cell_list_contents m row_left)))"

definition count_right :: "classroom_model \<Rightarrow> nat \<times> nat \<Rightarrow> enat" where
  "count_right m p =
     (let x = fst p; y = snd p;
          aisles_right = filter (\<lambda>i. x < i) (aisles_x (classroom m))
      in if aisles_right = [] then \<infinity>
         else let aisle_right = nearest (\<lambda>i. i - x) aisles_right;
                  row_right = map (\<lambda>i. (i, y)) [x + 1 ..< aisle_right]
              in enat (count_students (get_cell_list_contents m row_right)))"

text \<open>
  \<^verbatim>\<open>1 - min(count_right, count_left)/float(max_pass)\<close>. Both operands of the division
  are Python numbers (an int or the float \<^verbatim>\<open>np.infty\<close>, and a float), so a zero
  \<^verbatim>\<open>max_pass\<close> raises ZeroDivisionError.
\<close>

definition get_accessibility :: "classroom_model \<Rightarrow> nat \<times> nat \<Rightarrow> error + pyfloat" where
  "get_accessibility m p =
     (let mp = max_pass (classroom m)
      in if mp = 0 then Inl ZeroDivisionError
         else (case min (count_right m p) (count_left m p) of
                 enat n \<Rightarrow> Inr (Fin (1 - real n / real_of_int mp))
               | \<infinity> \<Rightarrow> Inr (if 0 < mp then NInf else PInf)))"

text \<open>
  \<^verbatim>\<open>get_neighborhood\<close>: the entry \<open>(i, j)\<close> of the neighbourhood matrix of the seat at
  \<open>p\<close>, \<open>None\<close> for \<open>-1\<close>. The last seated student met in the cell is the one recorded.
\<close>

definition seated_in :: "classroom_model \<Rightarrow> agent list \<Rightarrow> nat option" where
  "seated_in m as =
     fold (\<lambda>a r. case a of Student k \<Rightarrow> if seated (students m k) then Some k else r
                          | Seat s \<Rightarrow> r) as None"

definition odd_size :: "nat \<Rightarrow> nat" where
  "odd_size n = (if n mod 2 = 0 then n - 1 else n)"

definition get_neighborhood ::
  "classroom_model \<Rightarrow> nat \<times> nat \<Rightarrow> nat \<Rightarrow> nat \<Rightarrow> nat \<Rightarrow> nat \<Rightarrow> nat option" where
  "get_neighborhood m p size_x size_y i j =
     (let to_center_x = odd_size size_x div 2; to_center_y = odd_size size_y div 2
      in if fst p + i < to_center_x \<or> snd p + j < to_center_y then None
         else let coords = (fst p + i - to_center_x, snd p + j - to_center_y)
              in if out_of_bounds m coords then None
                 else seated_in m (get_cell_list_contents m [coords]))"

text \<open>
  The body of the double loop of \<^verbatim>\<open>get_social_utility\<close>. The accumulator is
  \<^verbatim>\<open>u_friendship\<close>, \<^verbatim>\<open>u_sociability\<close> and whether \<^verbatim>\<open>u_sociability\<close> has
  become a numpy float (it starts as the Python int 0 and turns into a numpy float with
  the first addition of a product with a matrix entry).
\<close>

definition social_step ::
  "classroom_model \<Rightarrow> student \<Rightarrow> (nat \<Rightarrow> nat \<Rightarrow> nat option) \<Rightarrow> nat \<times> nat
     \<Rightarrow> real \<times> real \<times> bool \<Rightarrow> real \<times> real \<times> bool" where
  "social_step m stu nb xy acc =
     (case nb (fst xy) (snd xy) of
        None \<Rightarrow> acc
      | Some k \<Rightarrow>
          (case acc of (u_friendship, u_sociability, is_np) \<Rightarrow>
             let friendship = social_network m (unique_id stu) k
             in (u_friendship + entry friendship_interaction_matrix (fst xy) (snd xy) * friendship,
                 if friendship = 0
                 then u_sociability
                        + entry sociability_interaction_matrix (fst xy) (snd xy) * sociability stu
                 else u_sociability,
                 is_np \<or> friendship = 0)))"

text \<open>
  The rescaling \<^verbatim>\<open>(u_sociability - s_min) / (s_max - s_min)\<close>. The sociability values
  are Python floats (the sequence is a list of them), so with a zero range the division
  raises ZeroDivisionError when \<^verbatim>\<open>u_sociability\<close> is still a Python number, and gives
  an infinity or not-a-number when it is a numpy float.
\<close>

definition rescale_sociability :: "real \<times> real \<Rightarrow> real \<Rightarrow> bool \<Rightarrow> error + pyfloat" where
  "rescale_sociability rng u is_np =
     (let s_min = fst rng; s_max = snd rng
      in if s_max - s_min = 0
         then (if is_np
               then Inr (if 0 < u - s_min then PInf else if u - s_min < 0 then NInf else NaN)
               else Inl ZeroDivisionError)
         else Inr (Fin ((u - s_min) / (s_max - s_min))))"

definition get_social_utility ::
  "classroom_model \<Rightarrow> nat \<times> nat \<Rightarrow> student \<Rightarrow> error + (real \<times> pyfloat)" where
  "get_social_utility m p stu =
     (let interaction_x = fst (shape friendship_interaction_matrix);
          interaction_y = snd (shape friendship_interaction_matrix);
          nb = get_neighborhood m p interaction_x interaction_y
      in case fold (social_step m stu nb)
                   (List.product [0..<interaction_x] [0..<interaction_y]) (0, 0, False) of
           (u_friendship, u_sociability, is_np) \<Rightarrow>
             (case rescale_sociability (sociability_range m) u_sociability is_np of
                Inl e \<Rightarrow> Inl e
              | Inr s \<Rightarrow> Inr (u_friendship, s)))"

definition get_happiness :: "classroom_model \<Rightarrow> nat \<times> nat \<Rightarrow> student \<Rightarrow> error + pyfloat" where
  "get_happiness m p stu =
     (case get_social_utility m p stu of
        Inl e \<Rightarrow> Inl e
      | Inr (friendship_component, sociability_component) \<Rightarrow>
          (case coefs m of (coef_p, coef_f, coef_s, coef_a) \<Rightarrow>
             Inr (fadd (Fin (coef_p * get_position_utility m p + coef_f * friendship_component))
                       (fmul coef_s sociability_component))))"

definition get_total_utility :: "classroom_model \<Rightarrow> nat \<times> nat \<Rightarrow> student \<Rightarrow> error + pyfloat" where
  "get_total_utility m p stu =
     (case get_social_utility m p stu of
        Inl e \<Rightarrow> Inl e
      | Inr (friendship_component, sociability_component) \<Rightarrow>
          (case coefs m of (coef_p, coef_f, coef_s, coef_a) \<Rightarrow>
             (case get_accessibility m p of
                Inl e \<Rightarrow> Inl e
              | Inr a \<Rightarrow>
                  Inr (fadd (fadd (Fin (coef_p * get_position_utility m p
                                         + coef_f * friendship_component))
                                  (fmul coef_s sociability_component))
                            (fmul coef_a a)))))"

section \<open>Student\<close>

text \<open>
  A draw of the model's random generator: \<^verbatim>\<open>rand.choice(xs)\<close> and
  \<^verbatim>\<open>rand.randint(n)\<close> take the next draw of the stream and reduce it to an index.
  Both raise ValueError when there is nothing to choose from.
\<close>

definition rand_randint :: "classroom_model \<Rightarrow> nat \<Rightarrow> error + (nat \<times> classroom_model)" where
  "rand_randint m n =
     (if n = 0 then Inl ValueError
      else Inr (rand m 0 mod n, m\<lparr>rand := (\<lambda>i. rand m (Suc i))\<rparr>))"

definition rand_choice :: "classroom_model \<Rightarrow> 'a list \<Rightarrow> error + ('a \<times> classroom_model)" where
  "rand_choice m xs =
     (case rand_randint m (length xs) of
        Inl e \<Rightarrow> Inl e
      | Inr (i, m') \<Rightarrow> Inr (xs ! i, m'))"

definition is_free_seat :: "agent \<Rightarrow> bool" where
  "is_free_seat a = (case a of Seat None \<Rightarrow> True | Seat (Some k) \<Rightarrow> False | Student k \<Rightarrow> False)"

text \<open>
  The loop over \<^verbatim>\<open>grid.coord_iter()\<close> that collects the seats without a student; a
  seat is named by its cell.
\<close>

definition seat_options :: "classroom_model \<Rightarrow> (nat \<times> nat) list" where
  "seat_options m =
     concat (map (\<lambda>c. map (\<lambda>a. c) (filter is_free_seat (grid m c)))
                 (List.product [0..<width (classroom m)] [0..<num_rows (classroom m)]))"

text \<open>The list comprehension over \<^verbatim>\<open>seat_options\<close>; the first exception ends it.\<close>

fun total_utilities ::
  "classroom_model \<Rightarrow> student \<Rightarrow> (nat \<times> nat) list \<Rightarrow> error + pyfloat list" where
  "total_utilities m stu [] = Inr []"
| "total_utilities m stu (p # ps) =
     (case get_total_utility m p stu of
        Inl e \<Rightarrow> Inl e
      | Inr u \<Rightarrow> (case total_utilities m stu ps of
                    Inl e \<Rightarrow> Inl e
                  | Inr us \<Rightarrow> Inr (u # us)))"

text \<open>\<^verbatim>\<open>np.max\<close> of a non-empty list of floats: not-a-number as soon as one entry is.\<close>

definition fmax :: "pyfloat \<Rightarrow> pyfloat \<Rightarrow> pyfloat" where
  "fmax a b = (if a = NaN \<or> b = NaN then NaN else if fle a b then b else a)"

definition np_max_list :: "pyfloat list \<Rightarrow> pyfloat" where
  "np_max_list us = fold (\<lambda>u b. fmax b u) (tl us) (hd us)"

text \<open>
  \<^verbatim>\<open>np.array(seat_options)[np.where(seat_utilities == np.max(seat_utilities))]\<close>
\<close>

definition maximizers :: "(nat \<times> nat) list \<Rightarrow> pyfloat list \<Rightarrow> (nat \<times> nat) list" where
  "maximizers opts us =
     map fst (filter (\<lambda>su. feq (snd su) (np_max_list us)) (zip opts us))"

text \<open>
  The first half of \<^verbatim>\<open>choose_seat\<close>: the value of \<^verbatim>\<open>seat_choice\<close> before the test
  \<^verbatim>\<open>if seat_choice is not None\<close>. With an old seat and utilities in use, the list
  comprehension calls \<^verbatim>\<open>get_stand_up_cost\<close>, which no class defines, right after the
  first total utility.
\<close>

definition select_seat ::
  "classroom_model \<Rightarrow> nat \<Rightarrow> (nat \<times> nat) option \<Rightarrow> (nat \<times> nat) option
     \<Rightarrow> error + ((nat \<times> nat) option \<times> classroom_model)" where
  "select_seat m sid seat_pos old_seat =
     (case seat_pos of
        None \<Rightarrow>
          (let opts = seat_options m
           in if opts = [] then Inr (None, m\<lparr>stdout := stdout m @ [''No empty seats!'']\<rparr>)
              else if random_seat_choice m
              then (case rand_choice m opts of
                      Inl e \<Rightarrow> Inl e
                    | Inr (s, m') \<Rightarrow> Inr (Some s, m'))
              else (case old_seat of
                      None \<Rightarrow>
                        (case total_utilities m (students m sid) opts of
                           Inl e \<Rightarrow> Inl e
                         | Inr seat_utilities \<Rightarrow>
                             (case rand_choice m (maximizers opts seat_utilities) of
                                Inl e \<Rightarrow> Inl e
                              | Inr (s, m') \<Rightarrow> Inr (Some s, m')))
                    | Some old \<Rightarrow>
                        (case get_total_utility m (hd opts) (students m sid) of
                           Inl e \<Rightarrow> Inl e
                         | Inr u \<Rightarrow> Inl AttributeError)))
      | Some p \<Rightarrow>
          if out_of_bounds m p then Inl IndexError
          else Inr (if filter is_free_seat (grid m p) = [] then None else Some p, m))"

text \<open>Assigning the \<^verbatim>\<open>student\<close> field of the Seat of a cell.\<close>

definition set_seat_student :: "classroom_model \<Rightarrow> nat \<times> nat \<Rightarrow> nat option \<Rightarrow> classroom_model" where
  "set_seat_student m q v =
     m\<lparr>grid := (grid m)(q := map (\<lambda>a. case a of Seat s \<Rightarrow> Seat v | Student k \<Rightarrow> a) (grid m q))\<rparr>"

text \<open>
  mesa's \<^verbatim>\<open>place_agent\<close> and \<^verbatim>\<open>move_agent\<close>. Placing indexes the grid, which
  raises IndexError outside it. Moving first checks the target (on a grid that is not
  a torus a target outside it raises a plain Exception), then reads the agent's
  \<^verbatim>\<open>pos\<close> (an attribute a student has only once it was placed) and removes the
  agent from that cell, which raises when it is not there.
\<close>

definition place_agent :: "classroom_model \<Rightarrow> nat \<Rightarrow> nat \<times> nat \<Rightarrow> error + classroom_model" where
  "place_agent m sid q =
     (if out_of_bounds m q then Inl IndexError
      else Inr (m\<lparr>grid := (grid m)(q := grid m q @ [Student sid]),
                  students := (students m)(sid := (students m sid)\<lparr>pos := Some q\<rparr>)\<rparr>))"

definition move_agent :: "classroom_model \<Rightarrow> nat \<Rightarrow> nat \<times> nat \<Rightarrow> error + classroom_model" where
  "move_agent m sid q =
     (if out_of_bounds m q then Inl Exception
      else case pos (students m sid) of
        None \<Rightarrow> Inl AttributeError
      | Some p0 \<Rightarrow>
          if Student sid \<notin> set (grid m p0) then Inl ValueError
          else place_agent (m\<lparr>grid := (grid m)(p0 := remove1 (Student sid) (grid m p0))\<rparr>) sid q)"

text \<open>The second half of \<^verbatim>\<open>choose_seat\<close>: the body of \<^verbatim>\<open>if seat_choice is not None\<close>.\<close>

definition commit_seat ::
  "classroom_model \<Rightarrow> nat \<Rightarrow> (nat \<times> nat) option \<Rightarrow> nat \<times> nat \<Rightarrow> error + classroom_model" where
  "commit_seat m sid old_seat q =
     (let m1 = (case old_seat of None \<Rightarrow> m | Some old \<Rightarrow> set_seat_student m old None);
          m2 = set_seat_student m1 q (Some sid)
      in case move_agent m2 sid q of
           Inl e \<Rightarrow> Inl e
         | Inr m3 \<Rightarrow>
             (case get_happiness m3 q (students m3 sid) of
                Inl e \<Rightarrow> Inl e
              | Inr h \<Rightarrow>
                  Inr (m3\<lparr>students := (students m3)
                             (sid := (students m3 sid)\<lparr>seated := True, initial_happiness := h\<rparr>)\<rparr>)))"

definition choose_seat ::
  "classroom_model \<Rightarrow> nat \<Rightarrow> (nat \<times> nat) option \<Rightarrow> (nat \<times> nat) option
     \<Rightarrow> error + classroom_model" where
  "choose_seat m sid seat_pos old_seat =
     (case select_seat m sid seat_pos old_seat of
        Inl e \<Rightarrow> Inl e
      | Inr (None, m') \<Rightarrow> Inr m'
      | Inr (Some q, m') \<Rightarrow> commit_seat m' sid old_seat q)"

text \<open>\<^verbatim>\<open>Student.step\<close>\<close>

definition student_step :: "classroom_model \<Rightarrow> nat \<Rightarrow> error + classroom_model" where
  "student_step m sid =
     (if \<not> seated (students m sid) then choose_seat m sid None None else Inr m)"

section \<open>ClassroomModel\<close>

text \<open>
  The argument \<^verbatim>\<open>coefs\<close> of the constructor is a Python list (the default, and what
  the docstring asks for) or a numpy array; the two differ in what \<^verbatim>\<open>coefs == 0\<close>
  means.
\<close>

datatype coef_arg =
  PyList "real \<times> real \<times> real \<times> real"
| NdArray "real \<times> real \<times> real \<times> real"

definition coef_values :: "coef_arg \<Rightarrow> real \<times> real \<times> real \<times> real" where
  "coef_values c = (case c of PyList v \<Rightarrow> v | NdArray v \<Rightarrow> v)"

text \<open>\<^verbatim>\<open>[(c/sum(coefs) if sum(coefs) > 0 else 0) for c in coefs]\<close>\<close>

definition normalize_coefs :: "coef_arg \<Rightarrow> real \<times> real \<times> real \<times> real" where
  "normalize_coefs cs =
     (case coef_values cs of (a, b, c, d) \<Rightarrow>
        let s = a + b + c + d
        in if 0 < s then (a / s, b / s, c / s, d / s) else (0, 0, 0, 0))"

text \<open>
  \<^verbatim>\<open>np.all(coefs == 0)\<close>: a list is not equal to \<open>0\<close>, so the comparison is the one
  value False; on an array the comparison is taken entry by entry.
\<close>

definition all_coefs_zero :: "coef_arg \<Rightarrow> bool" where
  "all_coefs_zero cs =
     (case cs of
        PyList v \<Rightarrow> False
      | NdArray (a, b, c, d) \<Rightarrow> a = 0 \<and> b = 0 \<and> c = 0 \<and> d = 0)"

text \<open>The seats that the constructor places: one in every cell that is on no aisle.\<close>

definition initial_grid :: "classroom_design \<Rightarrow> nat \<times> nat \<Rightarrow> agent list" where
  "initial_grid d c =
     (if fst c < width d \<and> fst c \<notin> set (aisles_x d)
         \<and> snd c < num_rows d \<and> snd c \<notin> set (aisles_y d)
      then [Seat None] else [])"

text \<open>A Student object as \<^verbatim>\<open>Student.__init__\<close> leaves it.\<close>

definition new_student :: "nat \<Rightarrow> real \<Rightarrow> student" where
  "new_student n s =
     \<lparr> unique_id = n, sociability = s, seated = False, initial_happiness = Fin 0, pos = None \<rparr>"

text \<open>
  \<^verbatim>\<open>ClassroomModel.__init__\<close>. \<open>random_state\<close> stands for \<^verbatim>\<open>np.random.RandomState\<close>:
  the stream of draws that a seed determines. \<open>network\<close> is the tie matrix that the
  module \<^verbatim>\<open>social.network\<close> returns for the population size (that module is not part
  of the sources at hand). The names \<^verbatim>\<open>SOCIABILITY_MIN\<close> and \<^verbatim>\<open>SOCIABILITY_MAX\<close>
  are defined nowhere: evaluating the body of the list comprehension raises NameError,
  and with no student to sample for the body is never evaluated and \<^verbatim>\<open>min\<close> raises
  ValueError on the empty sequence.
\<close>

text \<open>\<^verbatim>\<open>max_num_agents\<close>: the number of seats, or the length of the degree sequence.\<close>

definition population_size :: "classroom_design \<Rightarrow> nat list option \<Rightarrow> int" where
  "population_size design degree_sequence =
     (case degree_sequence of None \<Rightarrow> seat_count design | Some ds \<Rightarrow> int (length ds))"

definition ClassroomModel ::
  "(nat \<Rightarrow> nat \<Rightarrow> nat) \<Rightarrow> (nat \<Rightarrow> nat \<Rightarrow> real) \<Rightarrow> classroom_design \<Rightarrow> coef_arg
     \<Rightarrow> nat list option \<Rightarrow> real list option \<Rightarrow> nat \<Rightarrow> error + classroom_model" where
  "ClassroomModel random_state network design cs degree_sequence sociability_seq seed =
     (let mx = population_size design degree_sequence
      in case sociability_seq of
           None \<Rightarrow> if 0 < mx then Inl NameError else Inl ValueError
         | Some sq \<Rightarrow>
             if int (length sq) = mx
             then (case sq of
                     [] \<Rightarrow> Inl ValueError
                   | v # vs \<Rightarrow>
                       Inr \<lparr> classroom = design,
                             coefs = normalize_coefs cs,
                             random_seat_choice = all_coefs_zero cs,
                             max_num_agents = mx,
                             social_network = network,
                             sociability_sequence = sq,
                             sociability_range = (fold min vs v, fold max vs v),
                             grid = initial_grid design,
                             schedule = [],
                             students = (\<lambda>k. new_student k 0),
                             rand = random_state seed,
                             stdout = [] \<rparr>)
             else Inl ValueError)"

text \<open>
  mesa's RandomActivation shuffles its agent list in place with Python's module-level
  generator, which the model's seed does not reach; \<open>g\<close> is the stream of that
  generator's draws. The shuffle is the one of \<^verbatim>\<open>random.shuffle\<close>: for \<open>i\<close> from the
  last index down to 1, swap the entries \<open>i\<close> and \<open>j\<close> for a drawn \<open>j \<le> i\<close>.
\<close>

fun shuffle_from :: "nat \<Rightarrow> (nat \<Rightarrow> nat) \<Rightarrow> 'a list \<Rightarrow> 'a list" where
  "shuffle_from 0 g xs = xs"
| "shuffle_from (Suc i) g xs =
     (let j = g (Suc i) mod (Suc (Suc i))
      in shuffle_from i g (xs[Suc i := xs ! j, j := xs ! Suc i]))"

definition shuffle :: "(nat \<Rightarrow> nat) \<Rightarrow> 'a list \<Rightarrow> 'a list" where
  "shuffle g xs = shuffle_from (length xs - 1) g xs"

text \<open>The loop \<^verbatim>\<open>for agent in self.agents: agent.step()\<close>.\<close>

fun step_agents :: "nat list \<Rightarrow> classroom_model \<Rightarrow> error + classroom_model" where
  "step_agents [] m = Inr m"
| "step_agents (k # ks) m =
     (case student_step m k of
        Inl e \<Rightarrow> Inl e
      | Inr m' \<Rightarrow> step_agents ks m')"

definition schedule_step :: "(nat \<Rightarrow> nat) \<Rightarrow> classroom_model \<Rightarrow> error + classroom_model" where
  "schedule_step g m =
     (let order = shuffle g (schedule m)
      in step_agents order (m\<lparr>schedule := order\<rparr>))"

text \<open>
  The sociability of the next student: the next value of the queue when the
  sociability coefficient is not 0, and the default 0 of \<^verbatim>\<open>Student.__init__\<close>
  otherwise.
\<close>

definition next_sociability :: "classroom_model \<Rightarrow> error + (real \<times> classroom_model)" where
  "next_sociability m =
     (case coefs m of (coef_p, coef_f, coef_s, coef_a) \<Rightarrow>
        if coef_s \<noteq> 0
        then (case sociability_sequence m of
                [] \<Rightarrow> Inl IndexError
              | s # ss \<Rightarrow> Inr (s, m\<lparr>sociability_sequence := ss\<rparr>))
        else Inr (0, m))"

text \<open>\<^verbatim>\<open>Student(n, self, sociability)\<close> and \<^verbatim>\<open>self.schedule.add(student)\<close>.\<close>

definition add_student :: "classroom_model \<Rightarrow> nat \<Rightarrow> real \<Rightarrow> classroom_model" where
  "add_student m n s =
     m\<lparr>students := (students m)(n := new_student n s), schedule := schedule m @ [n]\<rparr>"

text \<open>The first half of \<^verbatim>\<open>ClassroomModel.step\<close>: a new student, if there is room for one.\<close>

definition admit :: "classroom_model \<Rightarrow> error + classroom_model" where
  "admit m =
     (let n = length (schedule m)
      in if int n < max_num_agents m
         then (case next_sociability m of
                 Inl e \<Rightarrow> Inl e
               | Inr (s, m1) \<Rightarrow>
                   (let m2 = add_student m1 n s
                    in case rand_randint m2 (length (entrances (classroom m2))) of
                         Inl e \<Rightarrow> Inl e
                       | Inr (i, m3) \<Rightarrow> place_agent m3 n (entrances (classroom m3) ! i)))
         else Inr m)"

definition step :: "(nat \<Rightarrow> nat) \<Rightarrow> classroom_model \<Rightarrow> error + classroom_model" where
  "step g m = (case admit m of Inl e \<Rightarrow> Inl e | Inr m' \<Rightarrow> schedule_step g m')"

text \<open>\<open>n\<close> ticks; \<open>gs t\<close> is what the module-level generator draws during tick \<open>t\<close>.\<close>

fun run :: "(nat \<Rightarrow> nat \<Rightarrow> nat) \<Rightarrow> nat \<Rightarrow> classroom_model \<Rightarrow> error + classroom_model" where
  "run gs 0 m = Inr m"
| "run gs (Suc n) m =
     (case run gs n m of
        Inl e \<Rightarrow> Inl e
      | Inr m' \<Rightarrow> step (gs n) m')"

text \<open>
  \<^verbatim>\<open>get_binary_model_state\<close>. Writing at the \<^verbatim>\<open>pos\<close> of a student that was never
  placed raises, as does a position outside the array; \<^verbatim>\<open>np.delete\<close> raises on an
  index that the array does not have.
\<close>

definition student_positions :: "classroom_model \<Rightarrow> (nat \<times> nat) option list" where
  "student_positions m = map (\<lambda>k. pos (students m k)) (schedule m)"

definition get_binary_model_state :: "classroom_model \<Rightarrow> error + real list list" where
  "get_binary_model_state m =
     (let d = classroom m; ps = student_positions m
      in if None \<in> set ps then Inl AttributeError
         else if list_ex (\<lambda>p. case p of None \<Rightarrow> False | Some c \<Rightarrow> out_of_bounds m c) ps
         then Inl IndexError
         else if list_ex (\<lambda>x. width d \<le> x) (aisles_x d) \<or> list_ex (\<lambda>y. num_rows d \<le> y) (aisles_y d)
         then Inl IndexError
         else Inr (map (\<lambda>x. map (\<lambda>y. if Some (x, y) \<in> set ps then 1 else 0)
                                 (filter (\<lambda>y. y \<notin> set (aisles_y d)) [0..<num_rows d]))
                       (filter (\<lambda>x. x \<notin> set (aisles_x d)) [0..<width d])))"

section \<open>Scenarios\<close>

text \<open>
  Sequencing of calls that may raise: the first exception ends the scenario.
\<close>

definition then_do :: "error + 'a \<Rightarrow> ('a \<Rightarrow> error + 'b) \<Rightarrow> error + 'b" where
  "then_do r f = (case r of Inl e \<Rightarrow> Inl e | Inr v \<Rightarrow> f v)"

definition succeeds :: "error + 'a \<Rightarrow> bool" where
  "succeeds r = (case r of Inl e \<Rightarrow> False | Inr v \<Rightarrow> True)"

text \<open>A generator whose every draw is 0, and a population without ties.\<close>

definition zero_rng :: "nat \<Rightarrow> nat \<Rightarrow> nat" where
  "zero_rng seed i = 0"

definition no_ties :: "nat \<Rightarrow> nat \<Rightarrow> real" where
  "no_ties i j = 0"

text \<open>
  \<^verbatim>\<open>ClassroomDesign(blocks=[2,0], num_rows=2, pos_utilities=np.zeros((5,5)))\<close>: the
  grid is 3 by 2 and its seats are 2 by 1.
\<close>

definition design_with_odd_matrix :: "error + classroom_design" where
  "design_with_odd_matrix = ClassroomDesign [2, 0] 2 (Some (np_zeros (5, 5))) None None"

text \<open>
  \<^verbatim>\<open>ClassroomModel(ClassroomDesign(blocks=[2,0], num_rows=1, pos_utilities=np.zeros((3,1))))\<close>:
  the only row is the aisle row, so there is no seat and the population size is 0.
\<close>

definition model_without_seats :: "error + classroom_model" where
  "model_without_seats =
     then_do (ClassroomDesign [2, 0] 1 (Some (np_zeros (3, 1))) None None) (\<lambda>d.
       ClassroomModel zero_rng no_ties d (PyList (1 / 4, 1 / 4, 1 / 4, 1 / 4)) None None 0)"

text \<open>
  Two blocks of one seat each, one row of seats behind the aisle row: \<^verbatim>\<open>max_pass\<close>
  is 0. The model is built with the given coefficients and the sociability values
  \<^verbatim>\<open>[0, 1]\<close>.
\<close>

definition narrow_model :: "coef_arg \<Rightarrow> real list \<Rightarrow> error + classroom_model" where
  "narrow_model cs sq =
     then_do (ClassroomDesign [1, 1] 2 (Some (np_zeros (3, 2))) None None) (\<lambda>d.
       ClassroomModel zero_rng no_ties d cs None (Some sq) 0)"

text \<open>The first tick of such a model, and the snapshot after it.\<close>

definition narrow_first_tick :: "coef_arg \<Rightarrow> error + real list list" where
  "narrow_first_tick cs =
     then_do (narrow_model cs [0, 1]) (\<lambda>m.
       then_do (step (zero_rng 0) m) get_binary_model_state)"

text \<open>
  The first student of a narrow model with the coefficients \<^verbatim>\<open>[0, 0, 0, 1]\<close>
  stands at the entrance: the free seats at that moment, and the snapshot after the
  student's call of \<^verbatim>\<open>choose_seat()\<close>.
\<close>

definition narrow_free_seats :: "error + (nat \<times> nat) list" where
  "narrow_free_seats =
     then_do (narrow_model (PyList (0, 0, 0, 1)) [0, 1]) (\<lambda>m.
       then_do (admit m) (\<lambda>m1. Inr (seat_options m1)))"

definition narrow_first_choice :: "error + real list list" where
  "narrow_first_choice =
     then_do (narrow_model (PyList (0, 0, 0, 1)) [0, 1]) (\<lambda>m.
       then_do (admit m) (\<lambda>m1.
         then_do (choose_seat m1 0 None None) get_binary_model_state))"

text \<open>The accessibility of the seat (0, 1) of a narrow model, before any tick.\<close>

definition narrow_accessibility :: "error + pyfloat" where
  "narrow_accessibility =
     then_do (narrow_model (PyList (0, 0, 0, 1)) [0, 1]) (\<lambda>m. get_accessibility m (0, 1))"

text \<open>
  A model whose sociability values are all \<^verbatim>\<open>0.5\<close>, on the grid of blocks
  \<^verbatim>\<open>[2,0]\<close> with one row of seats: the social utility of the seat (0, 1) for the
  first student, who stands at the entrance.
\<close>

definition uniform_sociability_utility :: "error + real \<times> pyfloat" where
  "uniform_sociability_utility =
     then_do (ClassroomDesign [2, 0] 2 (Some (np_zeros (3, 2))) None None) (\<lambda>d.
       then_do (ClassroomModel zero_rng no_ties d (PyList (0, 0, 1, 0)) None
                  (Some [1 / 2, 1 / 2]) 0) (\<lambda>m.
         then_do (admit m) (\<lambda>m1. get_social_utility m1 (0, 1) (students m1 0))))"

text \<open>
  The same grid with the sociability values \<^verbatim>\<open>[0.2, 0.8]\<close> and the coefficients
  \<^verbatim>\<open>[0, 0, 1, 0]\<close>: the total utility of the seat (0, 1) for the first student.
\<close>

definition first_student_utility :: "error + pyfloat" where
  "first_student_utility =
     then_do (ClassroomDesign [2, 0] 2 (Some (np_zeros (3, 2))) None None) (\<lambda>d.
       then_do (ClassroomModel zero_rng no_ties d (PyList (0, 0, 1, 0)) None
                  (Some [1 / 5, 4 / 5]) 0) (\<lambda>m.
         then_do (admit m) (\<lambda>m1. get_total_utility m1 (0, 1) (students m1 0))))"

text \<open>
  One row of three seats with the aisle to their right and the entrance on the middle
  seat: \<^verbatim>\<open>ClassroomDesign(blocks=[3,0], num_rows=1, pos_utilities=np.zeros((4,1)),
  entrances=[(1,0)], aisles_y=[])\<close>. After admission the first student stands on
  the cell (1, 0), unseated; the result is that student's \<^verbatim>\<open>seated\<close> flag and the
  accessibility of the seat (0, 0).
\<close>

definition entrance_between :: "error + bool \<times> pyfloat" where
  "entrance_between =
     then_do (ClassroomDesign [3, 0] 1 (Some (np_zeros (4, 1))) (Some [(1, 0)]) (Some [])) (\<lambda>d.
       then_do (ClassroomModel zero_rng no_ties d (PyList (0, 0, 0, 1)) None
                  (Some [0, 1 / 2, 1]) 0) (\<lambda>m.
         then_do (admit m) (\<lambda>m1.
           then_do (get_accessibility m1 (0, 0)) (\<lambda>a. Inr (seated (students m1 0), a)))))"

text \<open>The layout of a narrow model, written out.\<close>

definition narrow_design :: classroom_design where
  "narrow_design =
     \<lparr> width = 3, num_rows = 2, aisles_x = [1], aisles_y = [0],
       entrances = [(0, 0), (2, 0)], pos_utilities = np_zeros (3, 2),
       max_pass = 0, seat_count = 2 \<rparr>"

text \<open>The admitted students that are not seated, in the order of the schedule.\<close>

definition unseated :: "classroom_model \<Rightarrow> nat list" where
  "unseated m = filter (\<lambda>k. \<not> seated (students m k)) (schedule m)"

text \<open>
  A narrow model with a population of three after three ticks: the students 0 and 1
  sit on the two seats, the student 2 stands unseated at the entrance (0, 0).
\<close>

definition crowded_model :: classroom_model where
  "crowded_model =
     \<lparr> classroom = narrow_design,
       coefs = (0, 0, 0, 0),
       random_seat_choice = True,
       max_num_agents = 3,
       social_network = no_ties,
       sociability_sequence = [0, 1 / 2, 1],
       sociability_range = (0, 1),
       grid = (\<lambda>c. if c = (0, 1) then [Seat (Some 0), Student 0]
                  else if c = (2, 1) then [Seat (Some 1), Student 1]
                  else if c = (0, 0) then [Student 2] else []),
       schedule = [0, 1, 2],
       students = (\<lambda>k. \<lparr> unique_id = k, sociability = 0, seated = (k < 2),
                         initial_happiness = Fin 0,
                         pos = (if k = 0 then Some (0, 1)
                                else if k = 1 then Some (2, 1)
                                else if k = 2 then Some (0, 0) else None) \<rparr>),
       rand = zero_rng 0,
       stdout = [] \<rparr>"

text \<open>
  The snapshot that a simulation exports after \<open>n\<close> ticks: the model is constructed,
  advanced tick by tick (\<open>gs t\<close> is what Python's module-level generator, which shuffles
  the schedule, draws during tick \<open>t\<close>), and asked for its binary state.
\<close>

definition snapshot_after ::
  "(nat \<Rightarrow> nat \<Rightarrow> nat) \<Rightarrow> (nat \<Rightarrow> nat \<Rightarrow> real) \<Rightarrow> classroom_design \<Rightarrow> coef_arg
     \<Rightarrow> nat list option \<Rightarrow> real list option \<Rightarrow> nat \<Rightarrow> (nat \<Rightarrow> nat \<Rightarrow> nat) \<Rightarrow> nat
     \<Rightarrow> error + real list list" where
  "snapshot_after random_state network design cs degree_sequence sociability_seq seed gs n =
     then_do (ClassroomModel random_state network design cs degree_sequence sociability_seq seed)
       (\<lambda>m. then_do (run gs n m) get_binary_model_state)"

text \<open>
  The occupancy that the specification describes: over the cells that are on no aisle,
  in the order of the grid, 1 where the Seat of the cell has a student who is seated and
  0 elsewhere. It is stated from the seats, not from where students stand.
\<close>

definition seat_taken :: "classroom_model \<Rightarrow> nat \<times> nat \<Rightarrow> bool" where
  "seat_taken m c =
     list_ex (\<lambda>a. case a of Seat None \<Rightarrow> False
                          | Seat (Some k) \<Rightarrow> seated (students m k)
                          | Student k \<Rightarrow> False) (grid m c)"

definition occupancy :: "classroom_model \<Rightarrow> real list list" where
  "occupancy m =
     (let d = classroom m
      in map (\<lambda>x. map (\<lambda>y. if seat_taken m (x, y) then 1 else 0)
                        (filter (\<lambda>y. y \<notin> set (aisles_y d)) [0..<num_rows d]))
             (filter (\<lambda>x. x \<notin> set (aisles_x d)) [0..<width d]))"

text \<open>
  A bench of three seats with the aisle to its right, no aisle row, and the entrance on
  the middle seat; a population of four students who choose at random. After four
  ticks three students are seated and the fourth stands at the entrance.
\<close>

definition bench_design :: classroom_design where
  "bench_design =
     \<lparr> width = 4, num_rows = 1, aisles_x = [3], aisles_y = [],
       entrances = [(1, 0)], pos_utilities = np_zeros (4, 1),
       max_pass = 2, seat_count = 3 \<rparr>"

definition bench_model :: "error + classroom_model" where
  "bench_model =
     ClassroomModel zero_rng no_ties bench_design (NdArray (0, 0, 0, 0))
       (Some [0, 0, 0, 0]) (Some [0, 1 / 3, 2 / 3, 1]) 0"

definition bench_after_four :: "error + classroom_model" where
  "bench_after_four = run (\<lambda>t. zero_rng 0) 4 (projr bench_model)"

text \<open>
  A layout whose aisle row lies outside the grid:
  \<^verbatim>\<open>ClassroomDesign(blocks=[2,0], num_rows=2, pos_utilities=np.zeros((3,2)), aisles_y=[5])\<close>,
  with a population of two and the coefficients \<^verbatim>\<open>[0, 0, 0, 1]\<close>. The result is,
  after two ticks, the \<^verbatim>\<open>seated\<close> flags of the two students and what
  \<^verbatim>\<open>get_binary_model_state\<close> returns.
\<close>

definition far_aisle_export :: "error + bool list \<times> (error + real list list)" where
  "far_aisle_export =
     then_do (ClassroomDesign [2, 0] 2 (Some (np_zeros (3, 2))) None (Some [5])) (\<lambda>d.
       then_do (ClassroomModel zero_rng no_ties d (PyList (0, 0, 0, 1)) None (Some [0, 1]) 0)
         (\<lambda>m. then_do (run (\<lambda>t. zero_rng 0) 2 m) (\<lambda>m'.
            Inr (map (\<lambda>k. seated (students m' k)) (schedule m'),
                 get_binary_model_state m'))))"

section \<open>Notions used in the proofs\<close>

text \<open>The result of a call, with the schedule of the resulting state replaced.\<close>

definition with_schedule :: "nat list \<Rightarrow> error + classroom_model \<Rightarrow> error + classroom_model" where
  "with_schedule s r = (case r of Inl e \<Rightarrow> Inl e | Inr m \<Rightarrow> Inr (m\<lparr>schedule := s\<rparr>))"

text \<open>
  The grid after the student \<open>sid\<close> took the seat of the cell \<open>q\<close>, coming from the
  cell \<open>p0\<close>: what \<^verbatim>\<open>seat_choice.student = self\<close> and \<^verbatim>\<open>move_agent\<close> do to it.
\<close>

definition moved_grid ::
  "(nat \<times> nat \<Rightarrow> agent list) \<Rightarrow> nat \<Rightarrow> nat \<times> nat \<Rightarrow> nat \<times> nat \<Rightarrow> nat \<times> nat \<Rightarrow> agent list" where
  "moved_grid G sid p0 q =
     (let g1 = G(q := map (\<lambda>a. case a of Seat s \<Rightarrow> Seat (Some sid) | Student k \<Rightarrow> a) (G q));
          g2 = g1(p0 := remove1 (Student sid) (g1 p0))
      in g2(q := g2 q @ [Student sid]))"

text \<open>
  The invariant of the roster between ticks: the schedule holds the ids
  \<open>0, \<dots>, n - 1\<close> once each, and as long as a seat is free every admitted student is
  seated.
\<close>

definition roster_ok :: "classroom_model \<Rightarrow> bool" where
  "roster_ok m \<longleftrightarrow>
     distinct (schedule m) \<and> set (schedule m) = {0..<length (schedule m)}
     \<and> (seat_options m \<noteq> [] \<longrightarrow> (\<forall>k \<in> set (schedule m). seated (students m k)))"

text \<open>Two states that differ at most in the order of the schedule.\<close>

definition same_but_order :: "classroom_model \<Rightarrow> classroom_model \<Rightarrow> bool" where
  "same_but_order m m' \<longleftrightarrow>
     m' = m\<lparr>schedule := schedule m'\<rparr> \<and> mset (schedule m') = mset (schedule m)"

text \<open>The cells in which the constructor places a Seat.\<close>

definition has_seat :: "classroom_design \<Rightarrow> nat \<times> nat \<Rightarrow> bool" where
  "has_seat d c \<longleftrightarrow>
     fst c < width d \<and> fst c \<notin> set (aisles_x d) \<and> snd c < num_rows d \<and> snd c \<notin> set (aisles_y d)"

text \<open>
  The invariant of the grid between ticks: every admitted student stands on a cell of
  the grid; every cell off the aisles holds a Seat and no cell holds two different
  ones; the student of a Seat is admitted, seated and positioned on the Seat's cell;
  and every seated student is the student of the Seat of the cell they are on.
\<close>

definition grid_ok :: "classroom_model \<Rightarrow> bool" where
  "grid_ok m \<longleftrightarrow>
     (\<forall>k \<in> set (schedule m). \<exists>p. pos (students m k) = Some p \<and> \<not> out_of_bounds m p
                                   \<and> Student k \<in> set (grid m p))
     \<and> (\<forall>c. has_seat (classroom m) c \<longrightarrow> (\<exists>s. Seat s \<in> set (grid m c)))
     \<and> (\<forall>c s s'. Seat s \<in> set (grid m c) \<longrightarrow> Seat s' \<in> set (grid m c) \<longrightarrow> s = s')
     \<and> (\<forall>c k. Seat (Some k) \<in> set (grid m c) \<longrightarrow>
           k \<in> set (schedule m) \<and> seated (students m k) \<and> pos (students m k) = Some c)
     \<and> (\<forall>k \<in> set (schedule m). seated (students m k) \<longrightarrow>
           (\<exists>c. pos (students m k) = Some c \<and> Seat (Some k) \<in> set (grid m c)))"

section \<open>Layout construction\<close>

text \<open>
  C6, as the specification states it, fails: a supplied matrix of shape (5, 5) matches
  neither the full shape (3, 2) nor the reduced shape (2, 1) of the grid, and the layout
  is constructed all the same.
\<close>

theorem odd_matrix_is_accepted:
  "shape (np_zeros (5, 5)) \<noteq> (grid_width [2, 0], 2)
   \<and> (int (fst (shape (np_zeros (5, 5)))), int (snd (shape (np_zeros (5, 5)))))
        \<noteq> (int (grid_width [2, 0]) - int (length (vertical_aisles 0 [2, 0])),
            int 2 - int (length [0::nat]))
   \<and> succeeds design_with_odd_matrix"
  by (simp add: design_with_odd_matrix_def ClassroomDesign_def np_zeros_def grid_width_def
        succeeds_def Let_def)

text \<open>
  C6, amended: for a non-empty block list, a supplied position-utility matrix whose
  shape is neither the full shape of the grid nor its reduced shape (aisles stripped)
  does not make the construction fail: the layout is constructed and all position
  utilities are 0.
\<close>

theorem design_accepts_any_shape:
  assumes ne: "blocks \<noteq> []"
    and full: "shape pu \<noteq> (grid_width blocks, rows)"
    and reduced: "(int (fst (shape pu)), int (snd (shape pu))) \<noteq>
          (int (grid_width blocks) - int (length (vertical_aisles 0 blocks)),
           int rows - int (length (case ay of None \<Rightarrow> [0] | Some a \<Rightarrow> a)))"
  shows "\<exists>d. ClassroomDesign blocks rows (Some pu) en ay = Inr d
           \<and> pos_utilities d = np_zeros (width d, num_rows d)
           \<and> (\<forall>x y. entry (pos_utilities d) x y = 0)"
  unfolding ClassroomDesign_def Let_def option.case if_not_P[OF reduced] if_not_P[OF full]
  by (simp add: ne np_zeros_def)

theorem design_accepts_any_shape_witness:
  "[2, 0] \<noteq> ([]::nat list)
   \<and> shape (np_zeros (5, 5)) \<noteq> (grid_width [2, 0], 2)
   \<and> (int (fst (shape (np_zeros (5, 5)))), int (snd (shape (np_zeros (5, 5)))))
        \<noteq> (int (grid_width [2, 0]) - int (length (vertical_aisles 0 [2, 0])),
            int 2 - int (length (case None of None \<Rightarrow> [0::nat] | Some a \<Rightarrow> a)))
   \<and> succeeds (ClassroomDesign [2, 0] 2 (Some (np_zeros (5, 5))) None None)"
proof -
  have ne: "[2, 0] \<noteq> ([]::nat list)" by simp
  have full: "shape (np_zeros (5, 5)) \<noteq> (grid_width [2, 0], 2)"
    by (simp add: np_zeros_def grid_width_def)
  have reduced: "(int (fst (shape (np_zeros (5, 5)))), int (snd (shape (np_zeros (5, 5)))))
        \<noteq> (int (grid_width [2, 0]) - int (length (vertical_aisles 0 [2, 0])),
            int 2 - int (length (case None of None \<Rightarrow> [0::nat] | Some a \<Rightarrow> a)))"
    by (simp add: np_zeros_def grid_width_def)
  from design_accepts_any_shape [OF ne full reduced, of None]
  have "succeeds (ClassroomDesign [2, 0] 2 (Some (np_zeros (5, 5))) None None)"
    by (auto simp: succeeds_def)
  with ne full reduced show ?thesis by blast
qed

section \<open>Construction of the model\<close>

lemma narrow_design_constructed:
  "ClassroomDesign [1, 1] 2 (Some (np_zeros (3, 2))) None None = Inr narrow_design"
  by (simp add: ClassroomDesign_def narrow_design_def grid_width_def np_zeros_def np_max_def
        entries_def Let_def half_trunc_def upt_rec)

text \<open>
  C10, as stated, fails: on a layout without seats the population size is 0, the list
  comprehension that names \<^verbatim>\<open>SOCIABILITY_MIN\<close> has nothing to evaluate, and the
  construction ends with the ValueError of \<^verbatim>\<open>min\<close> on an empty sequence, not with
  a NameError.
\<close>

theorem no_seats_no_name_error:
  "model_without_seats = Inl ValueError \<and> model_without_seats \<noteq> Inl NameError"
  by (simp add: model_without_seats_def then_do_def ClassroomDesign_def ClassroomModel_def
        population_size_def grid_width_def np_zeros_def np_max_def entries_def Let_def upt_rec)

text \<open>
  C10, amended: constructing the model without a sociability sequence always fails,
  with a NameError when the population size is positive and with a ValueError when it
  is not; a construction that completes was given a sociability sequence whose length
  is the population size.
\<close>

theorem default_sociability_fails:
  "ClassroomModel rs net d cs ds None seed
     = (if 0 < population_size d ds then Inl NameError else Inl ValueError)
   \<and> (succeeds (ClassroomModel rs net d cs ds sq seed) \<longrightarrow>
        (case sq of None \<Rightarrow> False | Some s \<Rightarrow> int (length s) = population_size d ds))"
  by (auto simp add: ClassroomModel_def succeeds_def Let_def
        split: option.splits list.splits if_splits)

theorem default_sociability_fails_witness:
  "succeeds (ClassroomModel zero_rng no_ties narrow_design (PyList (0, 0, 0, 1)) None
               (Some [0, 1]) 0)
   \<and> (case Some [0, 1 :: real] of None \<Rightarrow> False
       | Some s \<Rightarrow> int (length s) = population_size narrow_design None)"
proof -
  have ok: "succeeds (ClassroomModel zero_rng no_ties narrow_design (PyList (0, 0, 0, 1)) None
               (Some [0, 1]) 0)"
    by (simp add: ClassroomModel_def succeeds_def population_size_def narrow_design_def Let_def)
  from default_sociability_fails
         [of zero_rng no_ties narrow_design "PyList (0, 0, 0, 1)" None 0 "Some [0, 1]"] ok
  show ?thesis by blast
qed

text \<open>
  C4: with the coefficients given as the Python list \<^verbatim>\<open>[0, 0, 0, 0]\<close> the flag
  \<^verbatim>\<open>random_seat_choice\<close> is False, whatever the entries of the list.
\<close>

lemma list_coefs_never_random:
  "ClassroomModel rs net d (PyList v) ds sq seed = Inr m \<Longrightarrow> \<not> random_seat_choice m"
  by (auto simp add: ClassroomModel_def all_coefs_zero_def Let_def
        split: option.splits list.splits if_splits)

text \<open>
  C4 at the failing input: on the narrow layout the first tick of a model built from
  the list \<^verbatim>\<open>[0, 0, 0, 0]\<close> raises the ZeroDivisionError of the accessibility
  computation, so the utilities were computed; built from a numpy array of zeros, the
  tick seats the first student on the first free seat.
\<close>

theorem zero_list_computes_utilities:
  "\<not> all_coefs_zero (PyList (0, 0, 0, 0))
   \<and> narrow_first_tick (PyList (0, 0, 0, 0)) = Inl ZeroDivisionError
   \<and> narrow_first_tick (NdArray (0, 0, 0, 0)) = Inr [ [1], [0]]"
  by code_simp

section \<open>Utilities of a seat\<close>

text \<open>
  C5: neither division is guarded. A zero \<^verbatim>\<open>max_pass\<close> makes every call of
  \<^verbatim>\<open>get_accessibility\<close> raise, and a zero sociability range makes the rescaling
  raise or return an infinity or not-a-number; no fallback value is produced.
\<close>

lemma accessibility_unguarded:
  "max_pass (classroom m) = 0 \<Longrightarrow> get_accessibility m p = Inl ZeroDivisionError"
  by (simp add: get_accessibility_def)

lemma rescaling_unguarded:
  "rescale_sociability (s, s) u is_np \<noteq> Inr (Fin v)"
  by (simp add: rescale_sociability_def)

text \<open>
  C5 at the failing inputs: the accessibility of a seat of the narrow layout
  (\<^verbatim>\<open>max_pass\<close> is 0) and the social utility of a seat when all sociability values
  are \<^verbatim>\<open>0.5\<close> both raise ZeroDivisionError.
\<close>

theorem zero_denominators_raise:
  "narrow_accessibility = Inl ZeroDivisionError
   \<and> uniform_sociability_utility = Inl ZeroDivisionError"
  by code_simp

text \<open>
  C2 at the failing input: with the sociability values \<^verbatim>\<open>[0.2, 0.8]\<close> and the
  coefficients \<^verbatim>\<open>[0, 0, 1, 0]\<close>, the total utility of a seat without neighbours is
  \<open>(0 - 0.2) / (0.8 - 0.2) = - 1/3\<close> for the first student, outside \<open>[0, 1]\<close>.
\<close>

theorem rescaled_sociability_negative:
  "first_student_utility = Inr (Fin (- 1 / 3))"
  by code_simp

text \<open>
  C3 at the failing input: the first student stands unseated on the cell (1, 0), between
  the seat (0, 0) and the aisle, and is counted: the accessibility of that seat is
  \<open>1 - 1/2\<close>, where counting seated students only gives 1.
\<close>

theorem unseated_student_is_counted:
  "entrance_between = Inr (False, Fin (1 / 2))"
  by code_simp

section \<open>The seat decision\<close>

text \<open>
  C1 at the failing input: on the narrow layout there are free seats when the first
  student decides, and the decision raises ZeroDivisionError (the accessibility
  divides by \<^verbatim>\<open>max_pass\<close>, which is 0); nobody is seated.
\<close>

theorem narrow_choice_raises:
  "narrow_free_seats = Inr [(0, 1), (2, 1)]
   \<and> narrow_first_choice = Inl ZeroDivisionError"
  by code_simp

section \<open>Ticks without a free seat\<close>

lemma seat_options_empty_iff:
  "seat_options m = [] \<longleftrightarrow> (\<forall>c. \<not> out_of_bounds m c \<longrightarrow> filter is_free_seat (grid m c) = [])"
  by (auto simp add: seat_options_def out_of_bounds_def not_le)

lemma choose_without_seats:
  "seat_options m = [] \<Longrightarrow>
     choose_seat m sid None old = Inr (m\<lparr>stdout := stdout m @ [''No empty seats!'']\<rparr>)"
  by (simp add: choose_seat_def select_seat_def)

lemma choose_target_without_seats:
  "seat_options m = [] \<Longrightarrow> \<not> out_of_bounds m p \<Longrightarrow> choose_seat m sid (Some p) old = Inr m"
  by (cases p) (simp add: choose_seat_def select_seat_def seat_options_empty_iff)

lemma seat_options_stdout [simp]: "seat_options (m\<lparr>stdout := s\<rparr>) = seat_options m"
  by (simp add: seat_options_def)

lemma step_agents_without_seats:
  "seat_options m = [] \<Longrightarrow>
   step_agents ks m = Inr (m\<lparr>stdout := stdout m @
       replicate (length (filter (\<lambda>k. \<not> seated (students m k)) ks)) ''No empty seats!''\<rparr>)"
proof (induction ks arbitrary: m)
  case Nil
  then show ?case by simp
next
  case (Cons k ks)
  show ?case
  proof (cases "seated (students m k)")
    case True
    with Cons show ?thesis by (simp add: student_step_def)
  next
    case False
    let ?m = "m\<lparr>stdout := stdout m @ [''No empty seats!'']\<rparr>"
    have "student_step m k = Inr ?m"
      using False Cons.prems by (simp add: student_step_def choose_without_seats)
    moreover have "seat_options ?m = []" using Cons.prems by simp
    ultimately show ?thesis using Cons.IH[of ?m] False
      by (simp add: replicate_app_Cons_same)
  qed
qed

lemma mset_shuffle_from: "i < length xs \<Longrightarrow> mset (shuffle_from i g xs) = mset xs"
proof (induction i arbitrary: xs)
  case 0
  then show ?case by simp
next
  case (Suc i)
  let ?j = "g (Suc i) mod Suc (Suc i)"
  have j: "?j < length xs" using Suc.prems by (meson less_Suc_eq_le less_le_trans mod_less_divisor zero_less_Suc Suc_leI)
  have "mset (xs[Suc i := xs ! ?j, ?j := xs ! Suc i]) = mset xs"
    using Suc.prems j by (simp add: mset_swap)
  moreover have "i < length (xs[Suc i := xs ! ?j, ?j := xs ! Suc i])" using Suc.prems by simp
  ultimately show ?case using Suc.IH by (simp add: Let_def)
qed

lemma mset_shuffle [simp]: "mset (shuffle g xs) = mset xs"
proof (cases xs)
  case Nil
  then show ?thesis by (simp add: shuffle_def)
next
  case (Cons a list)
  then show ?thesis by (simp add: shuffle_def mset_shuffle_from)
qed

lemma length_filter_shuffle: "length (filter P (shuffle g xs)) = length (filter P xs)"
proof -
  have "size (filter_mset P (mset (shuffle g xs))) = size (filter_mset P (mset xs))" by simp
  then show ?thesis by (simp only: mset_filter[symmetric] size_mset)
qed


lemma seat_options_schedule [simp]: "seat_options (m\<lparr>schedule := s\<rparr>) = seat_options m"
  by (simp add: seat_options_def)

lemma is_free_seat_Student [simp]: "\<not> is_free_seat (Student k)"
  by (simp add: is_free_seat_def)

lemma next_sociability_result:
  assumes "next_sociability m = Inr (s, ma)"
  shows "\<exists>ss. ma = m\<lparr>sociability_sequence := ss\<rparr>"
proof -
  obtain cp cf cs ca where c: "coefs m = (cp, cf, cs, ca)" by (cases "coefs m") auto
  show ?thesis
  proof (cases "cs = 0")
    case True
    with assms c have "ma = m" by (simp add: next_sociability_def)
    then have "ma = m\<lparr>sociability_sequence := sociability_sequence m\<rparr>" by simp
    then show ?thesis by blast
  next
    case False
    with assms c show ?thesis
      by (cases "sociability_sequence m") (auto simp add: next_sociability_def)
  qed
qed

lemma rand_randint_result:
  assumes "rand_randint m n = Inr (i, mb)"
  shows "i < n \<and> mb = m\<lparr>rand := (\<lambda>i. rand m (Suc i))\<rparr>"
  using assms by (cases "n = 0") (auto simp add: rand_randint_def)

lemma place_agent_result:
  assumes "place_agent m k q = Inr mc"
  shows "\<not> out_of_bounds m q \<and>
         mc = m\<lparr>grid := (grid m)(q := grid m q @ [Student k]),
                students := (students m)(k := (students m k)\<lparr>pos := Some q\<rparr>)\<rparr>"
  using assms by (cases "out_of_bounds m q") (auto simp add: place_agent_def)

lemma admit_cases:
  assumes "admit m = Inr m1"
  obtains (full) "\<not> int (length (schedule m)) < max_num_agents m" "m1 = m"
  | (admitted) s ss r q where
      "int (length (schedule m)) < max_num_agents m"
      "\<not> out_of_bounds m q" "q \<in> set (entrances (classroom m))"
      "m1 = m\<lparr>sociability_sequence := ss,
                students := (students m)(length (schedule m) :=
                              (new_student (length (schedule m)) s)\<lparr>pos := Some q\<rparr>),
                schedule := schedule m @ [length (schedule m)],
                rand := r,
                grid := (grid m)(q := grid m q @ [Student (length (schedule m))])\<rparr>"
proof (cases "int (length (schedule m)) < max_num_agents m")
  case False
  with assms have "m1 = m" by (simp add: admit_def)
  with False show ?thesis by (rule full)
next
  case True
  let ?n = "length (schedule m)"
  from assms True obtain s ma where ns: "next_sociability m = Inr (s, ma)"
    by (cases "next_sociability m") (auto simp add: admit_def)
  then obtain ss where ma: "ma = m\<lparr>sociability_sequence := ss\<rparr>"
    using next_sociability_result by blast
  let ?m2 = "add_student ma ?n s"
  from assms True ns obtain i mb where
    rr: "rand_randint ?m2 (length (entrances (classroom ?m2))) = Inr (i, mb)"
    by (cases "rand_randint ?m2 (length (entrances (classroom ?m2)))")
       (auto simp add: admit_def Let_def)
  then have i: "i < length (entrances (classroom ?m2))"
    and mb: "mb = ?m2\<lparr>rand := (\<lambda>i. rand ?m2 (Suc i))\<rparr>"
    using rand_randint_result by blast+
  let ?q = "entrances (classroom mb) ! i"
  from assms True ns rr have pa: "place_agent mb ?n ?q = Inr m1"
    by (simp add: admit_def Let_def)
  then have oob: "\<not> out_of_bounds mb ?q"
    and m1: "m1 = mb\<lparr>grid := (grid mb)(?q := grid mb ?q @ [Student ?n]),
                students := (students mb)(?n := (students mb ?n)\<lparr>pos := Some ?q\<rparr>)\<rparr>"
    using place_agent_result by blast+
  have cl: "classroom mb = classroom m" by (simp add: mb ma add_student_def)
  have q: "?q \<in> set (entrances (classroom m))"
    using i by (simp add: cl ma add_student_def)
  have oob': "\<not> out_of_bounds m ?q" using oob by (simp add: out_of_bounds_def cl)
  have "m1 = m\<lparr>sociability_sequence := ss,
                students := (students m)(?n := (new_student ?n s)\<lparr>pos := Some ?q\<rparr>),
                schedule := schedule m @ [?n],
                rand := (\<lambda>i. rand m (Suc i)),
                grid := (grid m)(?q := grid m ?q @ [Student ?n])\<rparr>"
    by (simp add: m1 mb ma add_student_def)
  with True oob' q show ?thesis by (rule admitted)
qed


lemma seat_options_cong:
  "classroom m' = classroom m \<Longrightarrow>
   (\<And>c. filter is_free_seat (grid m' c) = filter is_free_seat (grid m c)) \<Longrightarrow>
   seat_options m' = seat_options m"
  by (simp add: seat_options_def)

lemma admit_seat_options:
  assumes "admit m = Inr m1"
  shows "seat_options m1 = seat_options m"
  using assms
proof (cases rule: admit_cases)
  case full
  then show ?thesis by simp
next
  case (admitted s ss r q)
  show ?thesis by (rule seat_options_cong) (simp_all add: admitted(4))
qed

lemma admit_seats:
  assumes "admit m = Inr m1"
  shows "(Seat s \<in> set (grid m1 c)) = (Seat s \<in> set (grid m c))"
  using assms
proof (cases rule: admit_cases)
  case full
  then show ?thesis by simp
next
  case (admitted s ss r q)
  show ?thesis by (simp add: admitted(4))
qed

lemma admit_students:
  assumes "admit m = Inr m1" and "k \<noteq> length (schedule m)"
  shows "students m1 k = students m k"
  using assms(1)
proof (cases rule: admit_cases)
  case full
  then show ?thesis by simp
next
  case (admitted s ss r q)
  show ?thesis using assms(2) by (simp add: admitted(4))
qed

lemma step_without_seats:
  assumes "seat_options m = []"
  shows "step g m = then_do (admit m) (\<lambda>m1.
           Inr (m1\<lparr>schedule := shuffle g (schedule m1),
                  stdout := stdout m1 @ replicate (length (unseated m1)) ''No empty seats!''\<rparr>))"
proof (cases "admit m")
  case (Inl e)
  then show ?thesis by (simp add: step_def then_do_def)
next
  case (Inr m1)
  let ?o = "shuffle g (schedule m1)"
  have "seat_options (m1\<lparr>schedule := ?o\<rparr>) = []"
    using admit_seat_options[OF Inr] assms by simp
  from step_agents_without_seats[OF this, of ?o]
  show ?thesis
    by (simp add: step_def then_do_def Inr schedule_step_def Let_def unseated_def
        length_filter_shuffle)
qed

lemma step_keeps_unseated:
  assumes ns: "seat_options m = []" and st: "step g m = Inr m'"
    and k: "k \<in> set (schedule m)" "k < length (schedule m)" "\<not> seated (students m k)"
  shows "seat_options m' = [] \<and> k \<in> set (schedule m') \<and> k < length (schedule m')
         \<and> \<not> seated (students m' k)
         \<and> (\<forall>c s. (Seat s \<in> set (grid m' c)) = (Seat s \<in> set (grid m c)))
         \<and> (\<exists>j\<ge>1. stdout m' = stdout m @ replicate j ''No empty seats!'')"
proof -
  from st obtain m1 where a: "admit m = Inr m1"
    and m': "m' = m1\<lparr>schedule := shuffle g (schedule m1),
                  stdout := stdout m1 @ replicate (length (unseated m1)) ''No empty seats!''\<rparr>"
    using step_without_seats[OF ns, of g] by (cases "admit m") (auto simp: then_do_def)
  have sched: "set (schedule m) \<subseteq> set (schedule m1) \<and> length (schedule m) \<le> length (schedule m1)
               \<and> stdout m1 = stdout m"
    using a by (cases rule: admit_cases) auto
  have stu: "students m1 k = students m k" using admit_students[OF a] k(2) by simp
  have "k \<in> set (unseated m1)" using sched k stu by (auto simp: unseated_def)
  then have pos: "1 \<le> length (unseated m1)" by (cases "unseated m1") auto
  have "set (shuffle g (schedule m1)) = set (schedule m1)"
    by (metis mset_shuffle set_mset_mset)
  moreover have "length (shuffle g (schedule m1)) = length (schedule m1)"
    by (metis mset_shuffle size_mset)
  ultimately show ?thesis
    using sched k stu pos admit_seat_options[OF a] ns admit_seats[OF a]
    by (auto simp add: m')
qed

lemma run_keeps_unseated:
  assumes ns: "seat_options m = []" and rn: "run gs n m = Inr m'"
    and k: "k \<in> set (schedule m)" "k < length (schedule m)" "\<not> seated (students m k)"
  shows "seat_options m' = [] \<and> k \<in> set (schedule m') \<and> k < length (schedule m')
         \<and> \<not> seated (students m' k)
         \<and> (\<forall>c s. (Seat s \<in> set (grid m' c)) = (Seat s \<in> set (grid m c)))
         \<and> (\<exists>j\<ge>n. stdout m' = stdout m @ replicate j ''No empty seats!'')"
  using rn
proof (induction n arbitrary: m')
  case 0
  then show ?case using ns k by simp
next
  case (Suc n)
  from Suc.prems obtain m2 where r: "run gs n m = Inr m2" and s: "step (gs n) m2 = Inr m'"
    by (cases "run gs n m") auto
  from Suc.IH[OF r] obtain j where
    ih: "seat_options m2 = []" "k \<in> set (schedule m2)" "k < length (schedule m2)"
        "\<not> seated (students m2 k)"
        "\<forall>c s. (Seat s \<in> set (grid m2 c)) = (Seat s \<in> set (grid m c))"
        "n \<le> j" "stdout m2 = stdout m @ replicate j ''No empty seats!''"
    by blast
  from step_keeps_unseated[OF ih(1) s ih(2) ih(3) ih(4)] obtain i where
    st: "seat_options m' = []" "k \<in> set (schedule m')" "k < length (schedule m')"
        "\<not> seated (students m' k)"
        "\<forall>c s. (Seat s \<in> set (grid m' c)) = (Seat s \<in> set (grid m2 c))"
        "1 \<le> i" "stdout m' = stdout m2 @ replicate i ''No empty seats!''"
    by blast
  have "stdout m' = stdout m @ replicate (j + i) ''No empty seats!''"
    by (simp add: st(7) ih(7) replicate_add)
  moreover have "Suc n \<le> j + i" using ih(6) st(6) by simp
  ultimately show ?case using st ih(5) by blast
qed

text \<open>
  C7: when no seat is free, the decision procedure assigns nothing and raises nothing.
  A call of \<^verbatim>\<open>choose_seat()\<close> changes the state only by the printed line, and a
  call with a target cell inside the grid changes nothing. A tick is the admission
  followed by one printed line for every unseated student of the roster, so it fails
  only if the admission does. After the tick there is still no free seat, every Seat
  has the occupant it had, and the students admitted before are seated or not as before;
  hence, over any number of ticks, a student who is unseated stays unseated and every
  tick prints at least one line.
\<close>

theorem no_free_seat_is_only_reported:
  assumes "seat_options m = []"
  shows "choose_seat m sid None old = Inr (m\<lparr>stdout := stdout m @ [''No empty seats!'']\<rparr>)
    \<and> (\<not> out_of_bounds m p \<longrightarrow> choose_seat m sid (Some p) old = Inr m)
    \<and> step g m = then_do (admit m) (\<lambda>m1.
           Inr (m1\<lparr>schedule := shuffle g (schedule m1),
                  stdout := stdout m1 @ replicate (length (unseated m1)) ''No empty seats!''\<rparr>))
    \<and> (\<forall>m'. step g m = Inr m' \<longrightarrow>
          seat_options m' = []
          \<and> (\<forall>c s. (Seat s \<in> set (grid m' c)) = (Seat s \<in> set (grid m c)))
          \<and> (\<forall>k. k \<noteq> length (schedule m) \<longrightarrow> seated (students m' k) = seated (students m k)))
    \<and> (\<forall>m'. run gs n m = Inr m' \<and> k \<in> set (schedule m) \<and> k < length (schedule m)
               \<and> \<not> seated (students m k) \<longrightarrow>
          seat_options m' = [] \<and> k \<in> set (schedule m') \<and> \<not> seated (students m' k)
          \<and> (\<forall>c s. (Seat s \<in> set (grid m' c)) = (Seat s \<in> set (grid m c)))
          \<and> (\<exists>j\<ge>n. stdout m' = stdout m @ replicate j ''No empty seats!''))"
proof (intro conjI allI impI)
  show "choose_seat m sid None old = Inr (m\<lparr>stdout := stdout m @ [''No empty seats!'']\<rparr>)"
    using assms by (rule choose_without_seats)
next
  assume "\<not> out_of_bounds m p"
  with assms show "choose_seat m sid (Some p) old = Inr m"
    by (rule choose_target_without_seats)
next
  show "step g m = then_do (admit m) (\<lambda>m1.
           Inr (m1\<lparr>schedule := shuffle g (schedule m1),
                  stdout := stdout m1 @ replicate (length (unseated m1)) ''No empty seats!''\<rparr>))"
    using assms by (rule step_without_seats)
next
  fix m' assume st: "step g m = Inr m'"
  then obtain m1 where a: "admit m = Inr m1"
    and m': "m' = m1\<lparr>schedule := shuffle g (schedule m1),
                  stdout := stdout m1 @ replicate (length (unseated m1)) ''No empty seats!''\<rparr>"
    using step_without_seats[OF assms, of g] by (cases "admit m") (auto simp: then_do_def)
  show "seat_options m' = []" using admit_seat_options[OF a] assms by (simp add: m')
  show "\<And>c s. (Seat s \<in> set (grid m' c)) = (Seat s \<in> set (grid m c))"
    using admit_seats[OF a] by (simp add: m')
  show "\<And>k. k \<noteq> length (schedule m) \<Longrightarrow> seated (students m' k) = seated (students m k)"
    using admit_students[OF a] by (simp add: m')
next
  fix m'
  assume h: "run gs n m = Inr m' \<and> k \<in> set (schedule m) \<and> k < length (schedule m)
               \<and> \<not> seated (students m k)"
  from h run_keeps_unseated[OF assms, of gs n m' k]
  have r: "seat_options m' = [] \<and> k \<in> set (schedule m') \<and> k < length (schedule m')
         \<and> \<not> seated (students m' k)
         \<and> (\<forall>c s. (Seat s \<in> set (grid m' c)) = (Seat s \<in> set (grid m c)))
         \<and> (\<exists>j\<ge>n. stdout m' = stdout m @ replicate j ''No empty seats!'')"
    by blast
  from r show "seat_options m' = []" by blast
  from r show "k \<in> set (schedule m')" by blast
  from r show "\<not> seated (students m' k)" by blast
  from r show "\<And>c s. (Seat s \<in> set (grid m' c)) = (Seat s \<in> set (grid m c))" by blast
  from r show "\<exists>j\<ge>n. stdout m' = stdout m @ replicate j ''No empty seats!''" by blast
qed

lemma crowded_no_seat: "seat_options crowded_model = []"
  by code_simp

lemma crowded_run: "succeeds (run (\<lambda>t. zero_rng 0) 3 crowded_model)"
  by code_simp

theorem no_free_seat_is_only_reported_witness:
  "seat_options crowded_model = []
   \<and> \<not> out_of_bounds crowded_model (0, 1)
   \<and> 2 \<in> set (schedule crowded_model) \<and> 2 < length (schedule crowded_model)
   \<and> \<not> seated (students crowded_model 2)
   \<and> succeeds (run (\<lambda>t. zero_rng 0) 3 crowded_model)
   \<and> choose_seat crowded_model 2 None None
       = Inr (crowded_model\<lparr>stdout := stdout crowded_model @ [''No empty seats!'']\<rparr>)
   \<and> choose_seat crowded_model 2 (Some (0, 1)) None = Inr crowded_model
   \<and> \<not> seated (students (projr (run (\<lambda>t. zero_rng 0) 3 crowded_model)) 2)
   \<and> seat_options (projr (run (\<lambda>t. zero_rng 0) 3 crowded_model)) = []"
proof -
  let ?r = "run (\<lambda>t. zero_rng 0) 3 crowded_model"
  have oob: "\<not> out_of_bounds crowded_model (0, 1)"
    by (simp add: out_of_bounds_def crowded_model_def narrow_design_def)
  have k: "2 \<in> set (schedule crowded_model)" "2 < length (schedule crowded_model)"
    "\<not> seated (students crowded_model 2)"
    by (simp_all add: crowded_model_def)
  have r: "?r = Inr (projr ?r)"
    using crowded_run by (cases ?r) (auto simp: succeeds_def)
  from no_free_seat_is_only_reported
         [OF crowded_no_seat, of 2 None "(0, 1)" "zero_rng 0" "\<lambda>t. zero_rng 0" 3 2]
       oob k r crowded_no_seat crowded_run
  show ?thesis by blast
qed

section \<open>Independence of the order of activation\<close>

lemma with_schedule_simps [simp]:
  "with_schedule s (Inl e) = Inl e"
  "with_schedule s (Inr m) = Inr (m\<lparr>schedule := s\<rparr>)"
  by (simp_all add: with_schedule_def)

lemma out_of_bounds_schedule [simp]: "out_of_bounds (m\<lparr>schedule := s\<rparr>) = out_of_bounds m"
  by (rule ext) (simp add: out_of_bounds_def)

lemma get_cell_list_contents_schedule [simp]:
  "get_cell_list_contents (m\<lparr>schedule := s\<rparr>) = get_cell_list_contents m"
  by (rule ext) (simp add: get_cell_list_contents_def)

lemma get_position_utility_schedule [simp]:
  "get_position_utility (m\<lparr>schedule := s\<rparr>) = get_position_utility m"
  by (rule ext) (simp add: get_position_utility_def)

lemma count_left_schedule [simp]: "count_left (m\<lparr>schedule := s\<rparr>) = count_left m"
  by (rule ext) (simp add: count_left_def Let_def)

lemma count_right_schedule [simp]: "count_right (m\<lparr>schedule := s\<rparr>) = count_right m"
  by (rule ext) (simp add: count_right_def Let_def)

lemma get_accessibility_schedule [simp]:
  "get_accessibility (m\<lparr>schedule := s\<rparr>) = get_accessibility m"
  by (rule ext) (simp add: get_accessibility_def Let_def)

lemma seated_in_schedule [simp]: "seated_in (m\<lparr>schedule := s\<rparr>) = seated_in m"
  by (rule ext) (simp add: seated_in_def cong: agent.case_cong)

lemma get_neighborhood_schedule [simp]:
  "get_neighborhood (m\<lparr>schedule := s\<rparr>) = get_neighborhood m"
  by (intro ext) (simp add: get_neighborhood_def Let_def)

lemma social_step_schedule [simp]: "social_step (m\<lparr>schedule := s\<rparr>) = social_step m"
  by (intro ext) (simp add: social_step_def Let_def cong: option.case_cong prod.case_cong)

lemma get_social_utility_schedule [simp]:
  "get_social_utility (m\<lparr>schedule := s\<rparr>) = get_social_utility m"
  by (intro ext) (simp add: get_social_utility_def Let_def cong: prod.case_cong sum.case_cong)

lemma get_happiness_schedule [simp]:
  "get_happiness (m\<lparr>schedule := s\<rparr>) = get_happiness m"
  by (intro ext) (simp add: get_happiness_def cong: prod.case_cong sum.case_cong)

lemma get_total_utility_schedule [simp]:
  "get_total_utility (m\<lparr>schedule := s\<rparr>) = get_total_utility m"
  by (intro ext) (simp add: get_total_utility_def cong: prod.case_cong sum.case_cong)

lemma total_utilities_schedule [simp]:
  "total_utilities (m\<lparr>schedule := s\<rparr>) stu ps = total_utilities m stu ps"
  by (induction ps) (simp_all cong: sum.case_cong)

lemma rand_randint_schedule:
  "rand_randint (m\<lparr>schedule := s\<rparr>) n
     = (case rand_randint m n of Inl e \<Rightarrow> Inl e | Inr (i, m') \<Rightarrow> Inr (i, m'\<lparr>schedule := s\<rparr>))"
  by (simp add: rand_randint_def)

lemma rand_choice_schedule:
  "rand_choice (m\<lparr>schedule := s\<rparr>) xs
     = (case rand_choice m xs of Inl e \<Rightarrow> Inl e | Inr (x, m') \<Rightarrow> Inr (x, m'\<lparr>schedule := s\<rparr>))"
  by (simp add: rand_choice_def rand_randint_schedule split: sum.splits)

lemma select_seat_schedule:
  "select_seat (m\<lparr>schedule := s\<rparr>) sid sp old
     = (case select_seat m sid sp old of
          Inl e \<Rightarrow> Inl e | Inr (c, m') \<Rightarrow> Inr (c, m'\<lparr>schedule := s\<rparr>))"
  by (simp add: select_seat_def rand_choice_schedule Let_def
      split: sum.splits option.splits)

lemma set_seat_student_schedule:
  "set_seat_student (m\<lparr>schedule := s\<rparr>) q v = (set_seat_student m q v)\<lparr>schedule := s\<rparr>"
  by (simp add: set_seat_student_def)

lemma place_agent_schedule:
  "place_agent (m\<lparr>schedule := s\<rparr>) k q = with_schedule s (place_agent m k q)"
  by (simp add: place_agent_def)

lemma move_agent_schedule:
  "move_agent (m\<lparr>schedule := s\<rparr>) k q = with_schedule s (move_agent m k q)"
  by (simp add: move_agent_def place_agent_def out_of_bounds_def split: option.splits)

lemma commit_seat_schedule:
  "commit_seat (m\<lparr>schedule := s\<rparr>) k old q = with_schedule s (commit_seat m k old q)"
  by (cases old; cases "move_agent (set_seat_student m q (Some k)) k q")
     (simp_all add: commit_seat_def set_seat_student_schedule move_agent_schedule Let_def
        split: sum.splits)

lemma choose_seat_schedule:
  "choose_seat (m\<lparr>schedule := s\<rparr>) k sp old = with_schedule s (choose_seat m k sp old)"
  by (simp add: choose_seat_def select_seat_schedule commit_seat_schedule
      split: sum.splits option.splits prod.splits)

lemma student_step_schedule:
  "student_step (m\<lparr>schedule := s\<rparr>) k = with_schedule s (student_step m k)"
  by (simp add: student_step_def choose_seat_schedule)

lemma step_agents_schedule:
  "step_agents ks (m\<lparr>schedule := s\<rparr>) = with_schedule s (step_agents ks m)"
proof (induction ks arbitrary: m)
  case Nil
  then show ?case by simp
next
  case (Cons k ks)
  then show ?case by (cases "student_step m k") (simp_all add: student_step_schedule)
qed


lemma rand_choice_result:
  assumes "rand_choice m xs = Inr (x, m')"
  shows "x \<in> set xs \<and> m' = m\<lparr>rand := (\<lambda>i. rand m (Suc i))\<rparr>"
  using assms
  by (cases "xs = []") (auto simp add: rand_choice_def rand_randint_def)

lemma set_maximizers: "set (maximizers opts us) \<subseteq> set opts"
  by (auto simp add: maximizers_def dest: set_zip_leftD)

lemma select_seat_result:
  assumes "select_seat m sid None None = Inr (c, m')"
  shows "(seat_options m = [] \<and> c = None
            \<and> m' = m\<lparr>stdout := stdout m @ [''No empty seats!'']\<rparr>)
       \<or> (seat_options m \<noteq> [] \<and> (\<exists>q \<in> set (seat_options m). c = Some q)
            \<and> m' = m\<lparr>rand := (\<lambda>i. rand m (Suc i))\<rparr>)"
proof (cases "seat_options m = []")
  case True
  with assms show ?thesis by (simp add: select_seat_def)
next
  case ne: False
  show ?thesis
  proof (cases "random_seat_choice m")
    case True
    with assms ne obtain q where rc: "rand_choice m (seat_options m) = Inr (q, m')"
      and c: "c = Some q"
      by (cases "rand_choice m (seat_options m)") (auto simp add: select_seat_def)
    from rand_choice_result[OF rc] ne c show ?thesis by blast
  next
    case False
    with assms ne obtain us where us: "total_utilities m (students m sid) (seat_options m) = Inr us"
      by (cases "total_utilities m (students m sid) (seat_options m)")
         (auto simp add: select_seat_def)
    with assms ne False obtain q where
      rc: "rand_choice m (maximizers (seat_options m) us) = Inr (q, m')" and c: "c = Some q"
      by (cases "rand_choice m (maximizers (seat_options m) us)")
         (auto simp add: select_seat_def)
    from rand_choice_result[OF rc] set_maximizers[of "seat_options m" us] ne c
    show ?thesis by blast
  qed
qed

lemma commit_seat_result:
  assumes "commit_seat m sid None q = Inr m'"
  obtains p0 h where "pos (students m sid) = Some p0" "Student sid \<in> set (grid m p0)"
    "\<not> out_of_bounds m q"
    "m' = m\<lparr>grid := moved_grid (grid m) sid p0 q,
             students := (students m)(sid := (students m sid)
                \<lparr>pos := Some q, seated := True, initial_happiness := h\<rparr>)\<rparr>"
proof -
  let ?m2 = "set_seat_student m q (Some sid)"
  from assms obtain m3 where mv: "move_agent ?m2 sid q = Inr m3"
    by (cases "move_agent ?m2 sid q") (auto simp add: commit_seat_def)
  with assms obtain h where hp: "get_happiness m3 q (students m3 sid) = Inr h"
    and m': "m' = m3\<lparr>students := (students m3)
                (sid := (students m3 sid)\<lparr>seated := True, initial_happiness := h\<rparr>)\<rparr>"
    by (cases "get_happiness m3 q (students m3 sid)") (auto simp add: commit_seat_def)
  from mv have inb: "\<not> out_of_bounds ?m2 q"
    by (auto simp add: move_agent_def split: if_splits)
  from mv inb obtain p0 where p0: "pos (students ?m2 sid) = Some p0"
    by (cases "pos (students ?m2 sid)") (auto simp add: move_agent_def)
  with mv inb have inn: "Student sid \<in> set (grid ?m2 p0)"
    by (auto simp add: move_agent_def split: if_splits)
  let ?m2' = "?m2\<lparr>grid := (grid ?m2)(p0 := remove1 (Student sid) (grid ?m2 p0))\<rparr>"
  from mv p0 inn inb have pl: "place_agent ?m2' sid q = Inr m3"
    by (simp add: move_agent_def)
  then have oob: "\<not> out_of_bounds ?m2' q"
    and m3: "m3 = ?m2'\<lparr>grid := (grid ?m2')(q := grid ?m2' q @ [Student sid]),
                students := (students ?m2')(sid := (students ?m2' sid)\<lparr>pos := Some q\<rparr>)\<rparr>"
    using place_agent_result by blast+
  have 1: "pos (students m sid) = Some p0" using p0 by (simp add: set_seat_student_def)
  have 2: "Student sid \<in> set (grid m p0)"
    using inn by (auto simp add: set_seat_student_def split: if_splits agent.splits)
  have 3: "\<not> out_of_bounds m q" using oob by (simp add: out_of_bounds_def set_seat_student_def)
  have 4: "m' = m\<lparr>grid := moved_grid (grid m) sid p0 q,
             students := (students m)(sid := (students m sid)
                \<lparr>pos := Some q, seated := True, initial_happiness := h\<rparr>)\<rparr>"
    by (simp add: m' m3 set_seat_student_def moved_grid_def Let_def)
  from 1 2 3 4 show ?thesis by (rule that)
qed

lemma choose_seat_cases:
  assumes "choose_seat m sid None None = Inr m'"
  obtains (none) "seat_options m = []" "m' = m\<lparr>stdout := stdout m @ [''No empty seats!'']\<rparr>"
  | (chosen) q p0 h where "q \<in> set (seat_options m)"
      "pos (students m sid) = Some p0" "Student sid \<in> set (grid m p0)"
      "\<not> out_of_bounds m q"
      "m' = m\<lparr>rand := (\<lambda>i. rand m (Suc i)),
               grid := moved_grid (grid m) sid p0 q,
               students := (students m)(sid := (students m sid)
                  \<lparr>pos := Some q, seated := True, initial_happiness := h\<rparr>)\<rparr>"
proof -
  from assms obtain c m1 where sel: "select_seat m sid None None = Inr (c, m1)"
    by (cases "select_seat m sid None None") (auto simp add: choose_seat_def)
  from select_seat_result[OF sel] show ?thesis
  proof (elim disjE conjE bexE)
    assume "seat_options m = []" "c = None" "m1 = m\<lparr>stdout := stdout m @ [''No empty seats!'']\<rparr>"
    with assms sel show ?thesis by (intro none) (simp_all add: choose_seat_def)
  next
    fix q assume q: "seat_options m \<noteq> []" "q \<in> set (seat_options m)" "c = Some q"
      and m1: "m1 = m\<lparr>rand := (\<lambda>i. rand m (Suc i))\<rparr>"
    with assms sel have "commit_seat m1 sid None q = Inr m'" by (simp add: choose_seat_def)
    then show ?thesis
    proof (cases rule: commit_seat_result)
      case (1 p0 h)
      show ?thesis
      proof (rule chosen[of q p0 h])
        show "q \<in> set (seat_options m)" by (rule q(2))
        show "pos (students m sid) = Some p0" using 1(1) by (simp add: m1)
        show "Student sid \<in> set (grid m p0)" using 1(2) by (simp add: m1)
        show "\<not> out_of_bounds m q" using 1(3) by (simp add: m1 out_of_bounds_def)
        show "m' = m\<lparr>rand := (\<lambda>i. rand m (Suc i)),
               grid := moved_grid (grid m) sid p0 q,
               students := (students m)(sid := (students m sid)
                  \<lparr>pos := Some q, seated := True, initial_happiness := h\<rparr>)\<rparr>"
          using 1(4) by (simp add: m1)
      qed
    qed
  qed
qed


lemma student_step_seated: "seated (students m k) \<Longrightarrow> student_step m k = Inr m"
  by (simp add: student_step_def)

lemma step_agents_all_seated:
  "(\<And>k. k \<in> set ks \<Longrightarrow> seated (students m k)) \<Longrightarrow> step_agents ks m = Inr m"
  by (induction ks) (simp_all add: student_step_seated)

lemma student_step_others:
  assumes "student_step m k = Inr m'" and "j \<noteq> k"
  shows "students m' j = students m j"
proof (cases "seated (students m k)")
  case True
  with assms show ?thesis by (simp add: student_step_def)
next
  case False
  with assms have "choose_seat m k None None = Inr m'" by (simp add: student_step_def)
  then show ?thesis using assms(2) by (cases rule: choose_seat_cases) simp_all
qed

lemma step_agents_single:
  assumes "distinct ks" and "k \<in> set ks"
    and "\<And>j. j \<in> set ks \<Longrightarrow> j \<noteq> k \<Longrightarrow> seated (students m j)"
  shows "step_agents ks m = student_step m k"
  using assms
proof (induction ks)
  case Nil
  then show ?case by simp
next
  case (Cons a ks)
  show ?case
  proof (cases "a = k")
    case True
    show ?thesis
    proof (cases "student_step m k")
      case (Inl e)
      with True show ?thesis by simp
    next
      case (Inr m')
      have "step_agents ks m' = Inr m'"
      proof (rule step_agents_all_seated)
        fix j assume j: "j \<in> set ks"
        with Cons.prems(1) True have "j \<noteq> k" by auto
        with student_step_others[OF Inr] Cons.prems(3)[of j] j
        show "seated (students m' j)" by simp
      qed
      with Inr True show ?thesis by simp
    qed
  next
    case False
    with Cons.prems have "seated (students m a)" by simp
    then have "student_step m a = Inr m" by (rule student_step_seated)
    moreover have "step_agents ks m = student_step m k"
      using Cons.prems False by (intro Cons.IH) auto
    ultimately show ?thesis by simp
  qed
qed

lemma step_agents_perm:
  assumes d: "distinct ks" and p: "mset ks' = mset ks"
    and one: "seat_options m \<noteq> [] \<Longrightarrow> \<exists>k. \<forall>j \<in> set ks. j \<noteq> k \<longrightarrow> seated (students m j)"
  shows "step_agents ks' m = step_agents ks m"
proof (cases "seat_options m = []")
  case True
  have "size (filter_mset (\<lambda>k. \<not> seated (students m k)) (mset ks'))
        = size (filter_mset (\<lambda>k. \<not> seated (students m k)) (mset ks))"
    using p by simp
  then have "length (filter (\<lambda>k. \<not> seated (students m k)) ks')
        = length (filter (\<lambda>k. \<not> seated (students m k)) ks)"
    by (simp only: mset_filter[symmetric] size_mset)
  then show ?thesis by (simp add: step_agents_without_seats[OF True])
next
  case False
  from one[OF False] obtain k where k: "\<And>j. j \<in> set ks \<Longrightarrow> j \<noteq> k \<Longrightarrow> seated (students m j)"
    by blast
  have d': "distinct ks'" using d p by (metis mset_eq_imp_distinct_iff)
  have s': "set ks' = set ks" using p by (metis mset_eq_setD)
  show ?thesis
  proof (cases "k \<in> set ks")
    case True
    have "step_agents ks m = student_step m k" using d True k by (rule step_agents_single)
    moreover have "step_agents ks' m = student_step m k"
      using d' True k s' by (intro step_agents_single) auto
    ultimately show ?thesis by simp
  next
    case False
    then have "\<And>j. j \<in> set ks \<Longrightarrow> seated (students m j)" using k by auto
    then have "step_agents ks m = Inr m" "step_agents ks' m = Inr m"
      using s' by (auto intro: step_agents_all_seated)
    then show ?thesis by simp
  qed
qed

lemma admit_roster:
  assumes ok: "roster_ok m" and a: "admit m = Inr m1"
  shows "distinct (schedule m1) \<and> set (schedule m1) = {0..<length (schedule m1)}
       \<and> (seat_options m1 \<noteq> [] \<longrightarrow>
            (\<forall>j \<in> set (schedule m1). j \<noteq> length (schedule m) \<longrightarrow> seated (students m1 j)))"
  using a
proof (cases rule: admit_cases)
  case full
  with ok show ?thesis by (simp add: roster_ok_def)
next
  case (admitted s ss r q)
  have so: "seat_options m1 = seat_options m" by (rule admit_seat_options[OF a])
  from ok have d: "distinct (schedule m)" and st: "set (schedule m) = {0..<length (schedule m)}"
    and se: "seat_options m \<noteq> [] \<Longrightarrow> \<forall>k \<in> set (schedule m). seated (students m k)"
    by (auto simp add: roster_ok_def)
  have "distinct (schedule m1)" using d st by (simp add: admitted(4))
  moreover have "set (schedule m1) = {0..<length (schedule m1)}"
    using st by (auto simp add: admitted(4))
  moreover have "seat_options m1 \<noteq> [] \<longrightarrow>
            (\<forall>j \<in> set (schedule m1). j \<noteq> length (schedule m) \<longrightarrow> seated (students m1 j))"
    using se so by (auto simp add: admitted(4))
  ultimately show ?thesis by blast
qed

lemma step_normal_form:
  assumes ok: "roster_ok m"
  shows "step g m = then_do (admit m) (\<lambda>m1.
           with_schedule (shuffle g (schedule m1)) (step_agents (schedule m1) m1))"
proof (cases "admit m")
  case (Inl e)
  then show ?thesis by (simp add: step_def then_do_def)
next
  case (Inr m1)
  note ar = admit_roster[OF ok Inr]
  have "step_agents (shuffle g (schedule m1)) m1 = step_agents (schedule m1) m1"
    using ar by (intro step_agents_perm) auto
  then show ?thesis
    by (simp add: step_def then_do_def Inr schedule_step_def Let_def step_agents_schedule)
qed


lemma tick_roster:
  assumes ok: "roster_ok m" and a: "admit m = Inr m1"
    and sa: "step_agents (schedule m1) m1 = Inr m2"
  shows "schedule m2 = schedule m1
       \<and> (seat_options m2 \<noteq> [] \<longrightarrow> (\<forall>k \<in> set (schedule m1). seated (students m2 k)))"
proof (cases "seat_options m1 = []")
  case True
  with sa show ?thesis by (auto simp add: step_agents_without_seats[OF True])
next
  case False
  let ?n = "length (schedule m)"
  from admit_roster[OF ok a] False
  have d: "distinct (schedule m1)"
    and others: "\<And>j. j \<in> set (schedule m1) \<Longrightarrow> j \<noteq> ?n \<Longrightarrow> seated (students m1 j)"
    by auto
  show ?thesis
  proof (cases "?n \<in> set (schedule m1) \<and> \<not> seated (students m1 ?n)")
    case True
    then have "step_agents (schedule m1) m1 = student_step m1 ?n"
      using d others by (intro step_agents_single) auto
    with sa True have ch: "choose_seat m1 ?n None None = Inr m2"
      by (simp add: student_step_def)
    then show ?thesis
    proof (cases rule: choose_seat_cases)
      case none
      with False show ?thesis by simp
    next
      case (chosen q p0 h)
      show ?thesis using others by (auto simp add: chosen(5))
    qed
  next
    case False
    then have all: "\<And>j. j \<in> set (schedule m1) \<Longrightarrow> seated (students m1 j)"
      using others by blast
    then have "step_agents (schedule m1) m1 = Inr m1" by (rule step_agents_all_seated)
    with sa all show ?thesis by auto
  qed
qed

lemma roster_ok_schedule:
  assumes "roster_ok m" and "mset s = mset (schedule m)"
  shows "roster_ok (m\<lparr>schedule := s\<rparr>)"
proof -
  have "distinct s = distinct (schedule m)" using assms(2) by (rule mset_eq_imp_distinct_iff)
  moreover have "set s = set (schedule m)" using assms(2) by (rule mset_eq_setD)
  moreover have "length s = length (schedule m)" using assms(2) by (rule mset_eq_length)
  ultimately show ?thesis using assms(1) by (simp add: roster_ok_def)
qed

lemma step_roster:
  assumes ok: "roster_ok m" and st: "step g m = Inr m'"
  shows "roster_ok m'"
proof -
  from st step_normal_form[OF ok, of g] obtain m1 m2 where a: "admit m = Inr m1"
    and sa: "step_agents (schedule m1) m1 = Inr m2"
    and m': "m' = m2\<lparr>schedule := shuffle g (schedule m1)\<rparr>"
    by (cases "admit m"; cases "step_agents (schedule (projr (admit m))) (projr (admit m))")
       (auto simp add: then_do_def)
  from admit_roster[OF ok a] tick_roster[OF ok a sa]
  have "roster_ok m2" by (simp add: roster_ok_def)
  moreover have "mset (shuffle g (schedule m1)) = mset (schedule m2)"
    using tick_roster[OF ok a sa] by simp
  ultimately show ?thesis unfolding m' by (rule roster_ok_schedule)
qed

lemma next_sociability_schedule:
  "next_sociability (m\<lparr>schedule := s\<rparr>)
     = (case next_sociability m of Inl e \<Rightarrow> Inl e | Inr (v, m') \<Rightarrow> Inr (v, m'\<lparr>schedule := s\<rparr>))"
  by (simp add: next_sociability_def split: prod.splits list.splits)

lemma add_student_schedule:
  "add_student (m\<lparr>schedule := s\<rparr>) n v = (add_student m n v)\<lparr>schedule := s @ [n]\<rparr>"
  by (simp add: add_student_def)

lemma admit_schedule:
  assumes len: "length s = length (schedule m)"
  shows "admit (m\<lparr>schedule := s\<rparr>)
     = (case admit m of Inl e \<Rightarrow> Inl e
        | Inr m1 \<Rightarrow> Inr (m1\<lparr>schedule := s @ drop (length s) (schedule m1)\<rparr>))"
proof (cases "int (length (schedule m)) < max_num_agents m")
  case False
  then show ?thesis by (simp add: admit_def len)
next
  case True
  let ?n = "length (schedule m)"
  show ?thesis
  proof (cases "next_sociability m")
    case (Inl e)
    with True show ?thesis by (simp add: admit_def len next_sociability_schedule)
  next
    case (Inr vm)
    obtain v ma where vm: "vm = (v, ma)" by (cases vm)
    from Inr vm next_sociability_result obtain ss where
      ma: "ma = m\<lparr>sociability_sequence := ss\<rparr>" by blast
    let ?m2 = "add_student ma ?n v"
    let ?k = "length (entrances (classroom m))"
    have k: "length (entrances (classroom ?m2)) = ?k" by (simp add: add_student_def ma)
    show ?thesis
    proof (cases "rand_randint ?m2 ?k")
      case (Inl e)
      with True Inr vm show ?thesis
        by (simp add: admit_def len next_sociability_schedule add_student_schedule
            rand_randint_schedule Let_def k)
    next
      case rr: (Inr imb)
      obtain i mb where imb: "imb = (i, mb)" by (cases imb)
      from rr imb rand_randint_result have mb: "mb = ?m2\<lparr>rand := (\<lambda>i. rand ?m2 (Suc i))\<rparr>"
        by blast
      let ?q = "entrances (classroom m) ! i"
      have q: "entrances (classroom mb) ! i = ?q" by (simp add: mb add_student_def ma)
      have lhs: "admit (m\<lparr>schedule := s\<rparr>) = with_schedule (s @ [?n]) (place_agent mb ?n ?q)"
        using True Inr vm rr imb
        by (simp add: admit_def len next_sociability_schedule add_student_schedule
            rand_randint_schedule Let_def k q place_agent_schedule)
      have rhs: "admit m = place_agent mb ?n ?q"
        using True Inr vm rr imb by (simp add: admit_def Let_def k q)
      show ?thesis
      proof (cases "place_agent mb ?n ?q")
        case (Inl e)
        with lhs rhs show ?thesis by simp
      next
        case (Inr m1)
        with place_agent_result have "schedule m1 = schedule mb" by fastforce
        then have "schedule m1 = schedule m @ [?n]" by (simp add: mb add_student_def ma)
        with lhs rhs Inr len show ?thesis by simp
      qed
    qed
  qed
qed


lemma with_schedule_twice [simp]: "with_schedule a (with_schedule b r) = with_schedule a r"
  by (cases r) simp_all

lemma step_same_but_order:
  assumes ok: "roster_ok m" and eq: "same_but_order m m'"
  shows "case step g m of
           Inl e \<Rightarrow> step g' m' = Inl e
         | Inr a \<Rightarrow> (\<exists>b. step g' m' = Inr b \<and> same_but_order a b)"
proof -
  let ?s = "schedule m'"
  from eq have m': "m' = m\<lparr>schedule := ?s\<rparr>" and ms: "mset ?s = mset (schedule m)"
    by (simp_all add: same_but_order_def)
  have len: "length ?s = length (schedule m)" using ms by (rule mset_eq_length)
  have ok': "roster_ok m'" using roster_ok_schedule[OF ok ms] m' by simp
  show ?thesis
  proof (cases "admit m")
    case (Inl e)
    then have "admit m' = Inl e" using admit_schedule[OF len] m' by simp
    with Inl show ?thesis by (simp add: step_def)
  next
    case (Inr m1)
    let ?s1 = "?s @ drop (length ?s) (schedule m1)"
    have a': "admit m' = Inr (m1\<lparr>schedule := ?s1\<rparr>)"
      using admit_schedule[OF len] m' Inr by simp
    have "schedule m1 = schedule m @ drop (length ?s) (schedule m1)"
      using Inr len by (cases rule: admit_cases) simp_all
    then have ms1: "mset ?s1 = mset (schedule m1)"
      using ms by (metis mset_append)
    note ar = admit_roster[OF ok Inr]
    have perm: "step_agents ?s1 m1 = step_agents (schedule m1) m1"
      using ar ms1 by (intro step_agents_perm) auto
    have l: "step g m = with_schedule (shuffle g (schedule m1)) (step_agents (schedule m1) m1)"
      using step_normal_form[OF ok, of g] Inr by (simp add: then_do_def)
    have r: "step g' m' = with_schedule (shuffle g' ?s1) (step_agents (schedule m1) m1)"
      using step_normal_form[OF ok', of g'] a'
      by (simp add: then_do_def step_agents_schedule perm)
    show ?thesis
    proof (cases "step_agents (schedule m1) m1")
      case (Inl e)
      with l r show ?thesis by simp
    next
      case (Inr m2)
      have "mset (shuffle g' ?s1) = mset (shuffle g (schedule m1))" using ms1 by simp
      with l r Inr show ?thesis by (simp add: same_but_order_def)
    qed
  qed
qed

lemma same_but_order_refl: "same_but_order m m"
  by (simp add: same_but_order_def)

lemma run_same_but_order:
  assumes ok: "roster_ok m"
  shows "case run gs n m of
           Inl e \<Rightarrow> run gs' n m = Inl e
         | Inr a \<Rightarrow> (\<exists>b. run gs' n m = Inr b \<and> same_but_order a b \<and> roster_ok a)"
proof (induction n)
  case 0
  then show ?case using ok by (simp add: same_but_order_refl)
next
  case (Suc n)
  show ?case
  proof (cases "run gs n m")
    case (Inl e)
    with Suc show ?thesis by simp
  next
    case (Inr a)
    with Suc obtain b where b: "run gs' n m = Inr b" and ab: "same_but_order a b"
      and oka: "roster_ok a" by auto
    from step_same_but_order[OF oka ab, where g = "gs n" and g' = "gs' n"]
      step_roster[OF oka, of "gs n"]
    show ?thesis using Inr b by (cases "step (gs n) a") auto
  qed
qed

lemma snapshot_same_but_order:
  assumes "same_but_order a b"
  shows "get_binary_model_state b = get_binary_model_state a"
proof -
  from assms have b: "b = a\<lparr>schedule := schedule b\<rparr>" and "mset (schedule b) = mset (schedule a)"
    by (simp_all add: same_but_order_def)
  then have "set (schedule b) = set (schedule a)" by (metis mset_eq_setD)
  then have ps: "set (student_positions b) = set (student_positions a)"
    by (subst b) (simp add: student_positions_def)
  have oob: "out_of_bounds b = out_of_bounds a" by (subst b) simp
  have cl: "classroom b = classroom a" by (subst b) simp
  show ?thesis
    by (simp add: get_binary_model_state_def Let_def list_ex_iff ps oob cl)
qed

lemma initial_roster_ok:
  assumes "ClassroomModel rs net d cs ds sq seed = Inr m"
  shows "roster_ok m"
proof -
  from assms have "schedule m = []"
    by (auto simp add: ClassroomModel_def Let_def split: option.splits if_splits list.splits)
  then show ?thesis by (simp add: roster_ok_def)
qed

text \<open>
  C8: two simulations constructed from the same seed, layout, coefficients, tie matrix
  and sociability sequence export the same snapshot after \<open>n\<close> ticks (or raise the
  same exception), whatever the orders \<open>gs\<close> and \<open>gs'\<close> in which the scheduler, whose
  shuffle the seed does not control, activates the students in the two runs.
\<close>

theorem snapshots_are_deterministic:
  "snapshot_after rs net d cs ds sq seed gs n = snapshot_after rs net d cs ds sq seed gs' n"
proof (cases "ClassroomModel rs net d cs ds sq seed")
  case (Inl e)
  then show ?thesis by (simp add: snapshot_after_def then_do_def)
next
  case (Inr m)
  from run_same_but_order[OF initial_roster_ok[OF Inr], where gs = gs and n = n and gs' = gs']
  have "then_do (run gs n m) get_binary_model_state = then_do (run gs' n m) get_binary_model_state"
    by (cases "run gs n m") (auto simp add: then_do_def snapshot_same_but_order)
  with Inr show ?thesis by (simp add: snapshot_after_def then_do_def)
qed

section \<open>The exported snapshot\<close>

lemma moved_grid_student_other:
  "k \<noteq> sid \<Longrightarrow> (Student k \<in> set (moved_grid G sid p0 q c)) = (Student k \<in> set (G c))"
  by (auto simp add: moved_grid_def Let_def split: agent.splits)

lemma moved_grid_student_self: "Student sid \<in> set (moved_grid G sid p0 q q)"
  by (simp add: moved_grid_def Let_def)

lemma moved_grid_seat_other:
  "c \<noteq> q \<Longrightarrow> (Seat s \<in> set (moved_grid G sid p0 q c)) = (Seat s \<in> set (G c))"
  by (auto simp add: moved_grid_def Let_def)

lemma seat_in_reassigned:
  "(Seat s \<in> (\<lambda>a. case a of Seat s \<Rightarrow> Seat (Some sid) | Student k \<Rightarrow> a) ` set xs)
     = (s = Some sid \<and> (\<exists>s0. Seat s0 \<in> set xs))"
  by (induction xs) (auto split: agent.splits)

lemma moved_grid_seat_self:
  "(Seat s \<in> set (moved_grid G sid p0 q q)) = (s = Some sid \<and> (\<exists>s0. Seat s0 \<in> set (G q)))"
  by (simp add: moved_grid_def Let_def seat_in_reassigned)

lemma free_seat_option:
  assumes "q \<in> set (seat_options m)"
  shows "\<not> out_of_bounds m q \<and> Seat None \<in> set (grid m q)"
proof -
  from assms obtain a where "a \<in> set (grid m q)" "is_free_seat a" "\<not> out_of_bounds m q"
    by (auto simp add: seat_options_def out_of_bounds_def)
  moreover from this have "a = Seat None"
    by (auto simp add: is_free_seat_def split: agent.splits option.splits)
  ultimately show ?thesis by simp
qed


lemma grid_okI:
  assumes "\<And>k. k \<in> set (schedule m) \<Longrightarrow>
             \<exists>p. pos (students m k) = Some p \<and> \<not> out_of_bounds m p \<and> Student k \<in> set (grid m p)"
    and "\<And>c. has_seat (classroom m) c \<Longrightarrow> \<exists>s. Seat s \<in> set (grid m c)"
    and "\<And>c s s'. Seat s \<in> set (grid m c) \<Longrightarrow> Seat s' \<in> set (grid m c) \<Longrightarrow> s = s'"
    and "\<And>c k. Seat (Some k) \<in> set (grid m c) \<Longrightarrow>
           k \<in> set (schedule m) \<and> seated (students m k) \<and> pos (students m k) = Some c"
    and "\<And>k. k \<in> set (schedule m) \<Longrightarrow> seated (students m k) \<Longrightarrow>
           \<exists>c. pos (students m k) = Some c \<and> Seat (Some k) \<in> set (grid m c)"
  shows "grid_ok m"
  unfolding grid_ok_def using assms by blast

lemma grid_okD:
  assumes "grid_ok m"
  shows "\<And>k. k \<in> set (schedule m) \<Longrightarrow>
             \<exists>p. pos (students m k) = Some p \<and> \<not> out_of_bounds m p \<and> Student k \<in> set (grid m p)"
    and "\<And>c. has_seat (classroom m) c \<Longrightarrow> \<exists>s. Seat s \<in> set (grid m c)"
    and "\<And>c s s'. Seat s \<in> set (grid m c) \<Longrightarrow> Seat s' \<in> set (grid m c) \<Longrightarrow> s = s'"
    and "\<And>c k. Seat (Some k) \<in> set (grid m c) \<Longrightarrow>
           k \<in> set (schedule m) \<and> seated (students m k) \<and> pos (students m k) = Some c"
    and "\<And>k. k \<in> set (schedule m) \<Longrightarrow> seated (students m k) \<Longrightarrow>
           \<exists>c. pos (students m k) = Some c \<and> Seat (Some k) \<in> set (grid m c)"
  using assms unfolding grid_ok_def by blast+

lemma grid_ok_admit:
  assumes ok: "roster_ok m" and g: "grid_ok m" and a: "admit m = Inr m1"
  shows "grid_ok m1"
  using a
proof (cases rule: admit_cases)
  case full
  with g show ?thesis by simp
next
  case (admitted s ss r q)
  let ?n = "length (schedule m)"
  note D = grid_okD[OF g]
  from ok have lt: "\<And>k. k \<in> set (schedule m) \<Longrightarrow> k \<noteq> ?n" by (auto simp add: roster_ok_def)
  have oob: "out_of_bounds m1 = out_of_bounds m"
    by (rule ext) (simp add: admitted(4) out_of_bounds_def)
  have sch: "set (schedule m1) = insert ?n (set (schedule m))" by (simp add: admitted(4))
  have stu: "\<And>k. k \<noteq> ?n \<Longrightarrow> students m1 k = students m k" by (simp add: admitted(4))
  have new: "pos (students m1 ?n) = Some q" "\<not> seated (students m1 ?n)"
    by (simp_all add: admitted(4) new_student_def)
  have gs: "\<And>c s. (Seat s \<in> set (grid m1 c)) = (Seat s \<in> set (grid m c))"
    by (simp add: admitted(4))
  have gt: "\<And>c k. Student k \<in> set (grid m c) \<Longrightarrow> Student k \<in> set (grid m1 c)"
    by (auto simp add: admitted(4))
  have gn: "Student ?n \<in> set (grid m1 q)" by (simp add: admitted(4))
  have cl: "classroom m1 = classroom m" by (simp add: admitted(4))
  show ?thesis
  proof (rule grid_okI)
    fix k assume "k \<in> set (schedule m1)"
    then consider "k = ?n" | "k \<in> set (schedule m)" using sch by auto
    then show "\<exists>p. pos (students m1 k) = Some p \<and> \<not> out_of_bounds m1 p
                 \<and> Student k \<in> set (grid m1 p)"
    proof cases
      case 1
      then show ?thesis using new gn admitted(2) oob by auto
    next
      case 2
      with D(1)[OF 2] lt[OF 2] stu gt oob show ?thesis by auto
    qed
  next
    fix c assume "has_seat (classroom m1) c"
    then have "has_seat (classroom m) c" by (simp add: cl)
    from D(2)[OF this] show "\<exists>s. Seat s \<in> set (grid m1 c)" using gs by simp
  next
    fix c s s' assume "Seat s \<in> set (grid m1 c)" "Seat s' \<in> set (grid m1 c)"
    then show "s = s'" using D(3) gs by blast
  next
    fix c k assume "Seat (Some k) \<in> set (grid m1 c)"
    then have "Seat (Some k) \<in> set (grid m c)" using gs by simp
    from D(4)[OF this] lt stu sch
    show "k \<in> set (schedule m1) \<and> seated (students m1 k) \<and> pos (students m1 k) = Some c"
      by auto
  next
    fix k assume k: "k \<in> set (schedule m1)" "seated (students m1 k)"
    then have "k \<noteq> ?n" using new by auto
    with k sch stu have "k \<in> set (schedule m)" "seated (students m k)" by auto
    from D(5)[OF this] stu[OF \<open>k \<noteq> ?n\<close>] gs
    show "\<exists>c. pos (students m1 k) = Some c \<and> Seat (Some k) \<in> set (grid m1 c)" by auto
  qed
qed

lemma grid_ok_choose:
  assumes g: "grid_ok m" and sid: "sid \<in> set (schedule m)" "\<not> seated (students m sid)"
    and ch: "choose_seat m sid None None = Inr m'"
  shows "grid_ok m'"
  using ch
proof (cases rule: choose_seat_cases)
  case none
  with g show ?thesis by (simp add: grid_ok_def out_of_bounds_def)
next
  case (chosen q p0 h)
  note D = grid_okD[OF g]
  from free_seat_option[OF chosen(1)] have free: "Seat None \<in> set (grid m q)" by simp
  have only_free: "\<And>s. Seat s \<in> set (grid m q) \<Longrightarrow> s = None" using D(3) free by blast
  have not_sid: "\<And>c. Seat (Some sid) \<notin> set (grid m c)" using D(4) sid(2) by blast
  have oob: "out_of_bounds m' = out_of_bounds m"
    by (rule ext) (simp add: chosen(5) out_of_bounds_def)
  have sch: "schedule m' = schedule m" by (simp add: chosen(5))
  have cl: "classroom m' = classroom m" by (simp add: chosen(5))
  have stu: "\<And>k. k \<noteq> sid \<Longrightarrow> students m' k = students m k" by (simp add: chosen(5))
  have new: "pos (students m' sid) = Some q" "seated (students m' sid)"
    by (simp_all add: chosen(5))
  have gr: "grid m' = moved_grid (grid m) sid p0 q" by (simp add: chosen(5))
  show ?thesis
  proof (rule grid_okI)
    fix k assume k: "k \<in> set (schedule m')"
    show "\<exists>p. pos (students m' k) = Some p \<and> \<not> out_of_bounds m' p
                 \<and> Student k \<in> set (grid m' p)"
    proof (cases "k = sid")
      case True
      then show ?thesis using new chosen(4) oob gr moved_grid_student_self by auto
    next
      case False
      from k sch have "k \<in> set (schedule m)" by simp
      from D(1)[OF this] stu[OF False] oob gr moved_grid_student_other[OF False]
      show ?thesis by auto
    qed
  next
    fix c assume "has_seat (classroom m') c"
    then have "has_seat (classroom m) c" by (simp add: cl)
    from D(2)[OF this] obtain s where s: "Seat s \<in> set (grid m c)" by blast
    show "\<exists>s. Seat s \<in> set (grid m' c)"
    proof (cases "c = q")
      case True
      with s have "Seat (Some sid) \<in> set (grid m' c)"
        by (auto simp add: gr moved_grid_seat_self)
      then show ?thesis by blast
    next
      case False
      with s show ?thesis by (auto simp add: gr moved_grid_seat_other)
    qed
  next
    fix c s s' assume "Seat s \<in> set (grid m' c)" "Seat s' \<in> set (grid m' c)"
    then show "s = s'"
      using D(3) by (cases "c = q") (auto simp add: gr moved_grid_seat_self moved_grid_seat_other)
  next
    fix c k assume sk: "Seat (Some k) \<in> set (grid m' c)"
    show "k \<in> set (schedule m') \<and> seated (students m' k) \<and> pos (students m' k) = Some c"
    proof (cases "c = q")
      case True
      with sk have "k = sid" by (simp add: gr moved_grid_seat_self)
      with True new sid(1) sch show ?thesis by simp
    next
      case False
      with sk have in_m: "Seat (Some k) \<in> set (grid m c)"
        by (simp add: gr moved_grid_seat_other)
      then have "k \<noteq> sid" using not_sid by blast
      with D(4)[OF in_m] stu sch show ?thesis by simp
    qed
  next
    fix k assume k: "k \<in> set (schedule m')" "seated (students m' k)"
    show "\<exists>c. pos (students m' k) = Some c \<and> Seat (Some k) \<in> set (grid m' c)"
    proof (cases "k = sid")
      case True
      with new free show ?thesis by (auto simp add: gr moved_grid_seat_self)
    next
      case False
      with k sch stu have "k \<in> set (schedule m)" "seated (students m k)" by auto
      from D(5)[OF this] obtain c where c: "pos (students m k) = Some c"
        "Seat (Some k) \<in> set (grid m c)" by blast
      then have "c \<noteq> q" using only_free by blast
      with c stu[OF False] show ?thesis by (auto simp add: gr moved_grid_seat_other)
    qed
  qed
qed


lemma grid_ok_stdout [simp]: "grid_ok (m\<lparr>stdout := s\<rparr>) = grid_ok m"
  by (simp add: grid_ok_def out_of_bounds_def)

lemma grid_ok_schedule:
  "set s = set (schedule m) \<Longrightarrow> grid_ok (m\<lparr>schedule := s\<rparr>) = grid_ok m"
  by (simp add: grid_ok_def)

lemma tick_result:
  assumes ok: "roster_ok m" and a: "admit m = Inr m1"
    and sa: "step_agents (schedule m1) m1 = Inr m2"
  obtains (silent) "m2 = m1\<lparr>stdout := stdout m2\<rparr>"
  | (seated) "length (schedule m) \<in> set (schedule m1)"
      "\<not> seated (students m1 (length (schedule m)))"
      "choose_seat m1 (length (schedule m)) None None = Inr m2"
proof (cases "seat_options m1 = []")
  case True
  with sa have "m2 = m1\<lparr>stdout := stdout m2\<rparr>"
    by (auto simp add: step_agents_without_seats[OF True])
  then show ?thesis by (rule silent)
next
  case False
  let ?n = "length (schedule m)"
  from admit_roster[OF ok a] False
  have d: "distinct (schedule m1)"
    and others: "\<And>j. j \<in> set (schedule m1) \<Longrightarrow> j \<noteq> ?n \<Longrightarrow> seated (students m1 j)"
    by auto
  show ?thesis
  proof (cases "?n \<in> set (schedule m1) \<and> \<not> seated (students m1 ?n)")
    case True
    then have "step_agents (schedule m1) m1 = student_step m1 ?n"
      using d others by (intro step_agents_single) auto
    with sa True have "choose_seat m1 ?n None None = Inr m2"
      by (simp add: student_step_def)
    with True show ?thesis by (intro seated) simp_all
  next
    case False
    then have "\<And>j. j \<in> set (schedule m1) \<Longrightarrow> seated (students m1 j)"
      using others by blast
    then have "step_agents (schedule m1) m1 = Inr m1" by (rule step_agents_all_seated)
    with sa have "m2 = m1\<lparr>stdout := stdout m2\<rparr>" by auto
    then show ?thesis by (rule silent)
  qed
qed

lemma step_grid_ok:
  assumes ok: "roster_ok m" and g: "grid_ok m" and st: "step g m = Inr m'"
  shows "grid_ok m' \<and> classroom m' = classroom m"
proof -
  from st step_normal_form[OF ok, of g] obtain m1 m2 where a: "admit m = Inr m1"
    and sa: "step_agents (schedule m1) m1 = Inr m2"
    and m': "m' = m2\<lparr>schedule := shuffle g (schedule m1)\<rparr>"
    by (cases "admit m"; cases "step_agents (schedule (projr (admit m))) (projr (admit m))")
       (auto simp add: then_do_def)
  have g1: "grid_ok m1" by (rule grid_ok_admit[OF ok g a])
  have c1: "classroom m1 = classroom m" using a by (cases rule: admit_cases) simp_all
  have sch: "schedule m2 = schedule m1" using tick_roster[OF ok a sa] by simp
  have "grid_ok m2 \<and> classroom m2 = classroom m1"
    using ok a sa
  proof (cases rule: tick_result)
    case silent
    have "grid_ok (m1\<lparr>stdout := stdout m2\<rparr>)" using g1 by simp
    moreover have "classroom (m1\<lparr>stdout := stdout m2\<rparr>) = classroom m1" by simp
    ultimately show ?thesis using silent by metis
  next
    case seated
    have "grid_ok m2" using g1 seated by (rule grid_ok_choose)
    moreover have "classroom m2 = classroom m1"
      using seated(3) by (cases rule: choose_seat_cases) simp_all
    ultimately show ?thesis by simp
  qed
  moreover have "set (shuffle g (schedule m1)) = set (schedule m2)"
    using sch by (metis mset_shuffle set_mset_mset)
  ultimately show ?thesis using c1 by (simp add: m' grid_ok_schedule)
qed

lemma initial_grid_ok:
  assumes "ClassroomModel rs net d cs ds sq seed = Inr m"
  shows "grid_ok m \<and> classroom m = d"
proof -
  from assms have f: "schedule m = []" "grid m = initial_grid d" "classroom m = d"
    by (auto simp add: ClassroomModel_def Let_def split: option.splits if_splits list.splits)
  show ?thesis
    by (rule conjI, rule grid_okI)
       (auto simp add: f initial_grid_def has_seat_def split: if_splits)
qed

lemma run_invariant:
  assumes "ClassroomModel rs net d cs ds sq seed = Inr m0" and "run gs n m0 = Inr m"
  shows "roster_ok m \<and> grid_ok m \<and> classroom m = d"
  using assms(2)
proof (induction n arbitrary: m)
  case 0
  then show ?case using initial_roster_ok[OF assms(1)] initial_grid_ok[OF assms(1)] by simp
next
  case (Suc n)
  from Suc.prems obtain m1 where r: "run gs n m0 = Inr m1" and s: "step (gs n) m1 = Inr m"
    by (cases "run gs n m0") auto
  from Suc.IH[OF r] step_roster[OF _ s] step_grid_ok[OF _ _ s] show ?case by simp
qed

lemma vertical_aisles_bound:
  "x \<in> set (vertical_aisles cur bs) \<Longrightarrow> x < cur + sum_list bs + length bs - 1"
  by (induction cur bs rule: vertical_aisles.induct) auto

lemma design_aisles_in_range:
  assumes "ClassroomDesign blocks rows pu en ay = Inr d" and "x \<in> set (aisles_x d)"
  shows "x < width d"
proof -
  from assms(1) have "width d = grid_width blocks" "aisles_x d = vertical_aisles 0 blocks"
    by (auto simp add: ClassroomDesign_def Let_def split: option.splits if_splits sum.splits)
  with assms(2) vertical_aisles_bound[of x 0 blocks] show ?thesis
    by (simp add: grid_width_def)
qed


lemma seat_taken_iff:
  "seat_taken m c \<longleftrightarrow> (\<exists>k. Seat (Some k) \<in> set (grid m c) \<and> seated (students m k))"
proof
  assume "seat_taken m c"
  then obtain a where a: "a \<in> set (grid m c)"
    "case a of Seat None \<Rightarrow> False | Seat (Some k) \<Rightarrow> seated (students m k) | Student k \<Rightarrow> False"
    unfolding seat_taken_def list_ex_iff by blast
  have "\<exists>k. a = Seat (Some k) \<and> seated (students m k)"
  proof (cases a)
    case (Seat s)
    with a(2) show ?thesis by (cases s) simp_all
  next
    case (Student j)
    with a(2) show ?thesis by simp
  qed
  with a show "\<exists>k. Seat (Some k) \<in> set (grid m c) \<and> seated (students m k)" by blast
next
  assume "\<exists>k. Seat (Some k) \<in> set (grid m c) \<and> seated (students m k)"
  then obtain k where "Seat (Some k) \<in> set (grid m c)" "seated (students m k)" by blast
  then show "seat_taken m c"
    unfolding seat_taken_def list_ex_iff by (intro bexI[of _ "Seat (Some k)"]) simp_all
qed

lemma position_iff_taken:
  assumes ok: "roster_ok m" and g: "grid_ok m" and hs: "has_seat (classroom m) c"
  shows "(Some c \<in> set (student_positions m)) = seat_taken m c"
proof
  note D = grid_okD[OF g]
  assume "Some c \<in> set (student_positions m)"
  then obtain k where k: "k \<in> set (schedule m)" "pos (students m k) = Some c"
    by (auto simp add: student_positions_def)
  show "seat_taken m c"
  proof (cases "seated (students m k)")
    case True
    from D(5)[OF k(1) True] k(2) True show ?thesis by (auto simp add: seat_taken_iff)
  next
    case False
    with ok k(1) have "seat_options m = []" by (auto simp add: roster_ok_def)
    moreover from hs have "\<not> out_of_bounds m c" by (simp add: has_seat_def out_of_bounds_def)
    ultimately have nofree: "filter is_free_seat (grid m c) = []"
      using seat_options_empty_iff[of m] by blast
    from D(2)[OF hs] obtain s where s: "Seat s \<in> set (grid m c)" by blast
    have "s \<noteq> None"
    proof
      assume "s = None"
      with s have "Seat None \<in> set (filter is_free_seat (grid m c))"
        by (simp add: is_free_seat_def)
      with nofree show False by simp
    qed
    then obtain j where "s = Some j" by (cases s) auto
    with s D(4)[of j c] show ?thesis by (auto simp add: seat_taken_iff)
  qed
next
  note D = grid_okD[OF g]
  assume "seat_taken m c"
  then obtain k where "Seat (Some k) \<in> set (grid m c)" by (auto simp add: seat_taken_iff)
  from D(4)[OF this] show "Some c \<in> set (student_positions m)"
    by (force simp add: student_positions_def)
qed

lemma snapshot_is_occupancy:
  assumes ok: "roster_ok m" and g: "grid_ok m"
    and ax: "\<And>x. x \<in> set (aisles_x (classroom m)) \<Longrightarrow> x < width (classroom m)"
  shows "get_binary_model_state m =
           (if list_ex (\<lambda>y. num_rows (classroom m) \<le> y) (aisles_y (classroom m))
            then Inl IndexError else Inr (occupancy m))"
proof -
  note D = grid_okD[OF g]
  let ?ps = "student_positions m"
  have placed: "\<And>p. p \<in> set ?ps \<Longrightarrow> \<exists>c. p = Some c \<and> \<not> out_of_bounds m c"
    using D(1) by (fastforce simp add: student_positions_def)
  have none: "None \<notin> set ?ps" using placed by blast
  have inb: "\<not> list_ex (\<lambda>p. case p of None \<Rightarrow> False | Some c \<Rightarrow> out_of_bounds m c) ?ps"
    using placed by (fastforce simp add: list_ex_iff)
  have axs: "\<not> list_ex (\<lambda>x. width (classroom m) \<le> x) (aisles_x (classroom m))"
    using ax by (fastforce simp add: list_ex_iff)
  have cells: "map (\<lambda>x. map (\<lambda>y. if Some (x, y) \<in> set ?ps then 1 else (0::real))
                      (filter (\<lambda>y. y \<notin> set (aisles_y (classroom m))) [0..<num_rows (classroom m)]))
                 (filter (\<lambda>x. x \<notin> set (aisles_x (classroom m))) [0..<width (classroom m)])
               = occupancy m"
    unfolding occupancy_def Let_def
    by (intro map_cong refl if_cong position_iff_taken[OF ok g]) (simp add: has_seat_def)
  show ?thesis
    using none inb axs cells by (simp add: get_binary_model_state_def Let_def)
qed

text \<open>
  C9, as stated, fails: with the aisle row 5 on a grid of two rows the layout and the
  model are constructed, two ticks seat the two students, and the export is no array:
  \<^verbatim>\<open>np.delete\<close> raises IndexError on the aisle row that the array does not have.
\<close>

theorem far_aisle_export_raises:
  "far_aisle_export = Inr ([True, True], Inl IndexError)"
  by code_simp

text \<open>
  C9, amended: in every state that a constructed simulation reaches by ticks, if all
  aisle rows of the layout lie inside the grid, the exported snapshot is the occupancy
  over the cells off the aisles: 1 exactly where the Seat has a seated student, 0 at
  every empty seat. A student who stands unseated on the grid adds nothing: such a
  student exists only when no seat is free, and then the cell stood on, if it is off the
  aisles, holds an occupied Seat anyway. If an aisle row lies outside the grid, the
  export raises IndexError.
\<close>

theorem snapshot_shows_seated_occupants:
  assumes "ClassroomDesign blocks rows pu en ay = Inr d"
    and "ClassroomModel rs net d cs ds sq seed = Inr m0"
    and "run gs n m0 = Inr m"
  shows "get_binary_model_state m =
           (if list_ex (\<lambda>y. num_rows d \<le> y) (aisles_y d)
            then Inl IndexError else Inr (occupancy m))"
proof -
  from run_invariant[OF assms(2,3)]
  have ok: "roster_ok m" and g: "grid_ok m" and cl: "classroom m = d" by simp_all
  from snapshot_is_occupancy[OF ok g] design_aisles_in_range[OF assms(1)] cl
  show ?thesis by simp
qed


lemma bench_design_constructed:
  "ClassroomDesign [3, 0] 1 (Some (np_zeros (4, 1))) (Some [(1, 0)]) (Some []) = Inr bench_design"
  by (simp add: ClassroomDesign_def bench_design_def grid_width_def np_zeros_def np_max_def
        entries_def Let_def half_trunc_def upt_rec)

lemma bench_runs: "succeeds bench_model \<and> succeeds bench_after_four"
  by code_simp

lemma bench_after_four_state:
  "\<not> seated (students (projr bench_after_four) 3)
   \<and> pos (students (projr bench_after_four) 3) = Some (1, 0)
   \<and> occupancy (projr bench_after_four) = [ [1], [1], [1]]"
  by code_simp

theorem snapshot_shows_seated_occupants_witness:
  "ClassroomDesign [3, 0] 1 (Some (np_zeros (4, 1))) (Some [(1, 0)]) (Some []) = Inr bench_design
   \<and> succeeds bench_model \<and> succeeds bench_after_four
   \<and> \<not> seated (students (projr bench_after_four) 3)
   \<and> pos (students (projr bench_after_four) 3) = Some (1, 0)
   \<and> get_binary_model_state (projr bench_after_four) = Inr [ [1], [1], [1]]"
proof -
  have m0: "ClassroomModel zero_rng no_ties bench_design (NdArray (0, 0, 0, 0))
              (Some [0, 0, 0, 0]) (Some [0, 1 / 3, 2 / 3, 1]) 0 = Inr (projr bench_model)"
    using bench_runs by (cases bench_model) (auto simp add: succeeds_def bench_model_def)
  have r: "run (\<lambda>t. zero_rng 0) 4 (projr bench_model) = Inr (projr bench_after_four)"
    using bench_runs
    by (cases bench_after_four) (auto simp add: succeeds_def bench_after_four_def)
  from snapshot_shows_seated_occupants[OF bench_design_constructed m0 r]
  have "get_binary_model_state (projr bench_after_four) = Inr (occupancy (projr bench_after_four))"
    by (simp add: bench_design_def)
  with bench_design_constructed bench_runs bench_after_four_state show ?thesis by simp
qed

section \<open>The utility-driven choice where the utilities are finite\<close>

lemma out_of_bounds_rand [simp]: "out_of_bounds (m\<lparr>rand := r\<rparr>) = out_of_bounds m"
  by (rule ext) (simp add: out_of_bounds_def)

lemma get_cell_list_contents_rand [simp]:
  "get_cell_list_contents (m\<lparr>rand := r\<rparr>) = get_cell_list_contents m"
  by (rule ext) (simp add: get_cell_list_contents_def)

lemma get_position_utility_rand [simp]:
  "get_position_utility (m\<lparr>rand := r\<rparr>) = get_position_utility m"
  by (rule ext) (simp add: get_position_utility_def)

lemma count_left_rand [simp]: "count_left (m\<lparr>rand := r\<rparr>) = count_left m"
  by (rule ext) (simp add: count_left_def Let_def)

lemma count_right_rand [simp]: "count_right (m\<lparr>rand := r\<rparr>) = count_right m"
  by (rule ext) (simp add: count_right_def Let_def)

lemma get_accessibility_rand [simp]:
  "get_accessibility (m\<lparr>rand := r\<rparr>) = get_accessibility m"
  by (rule ext) (simp add: get_accessibility_def Let_def)

lemma seated_in_rand [simp]: "seated_in (m\<lparr>rand := r\<rparr>) = seated_in m"
  by (rule ext) (simp add: seated_in_def cong: agent.case_cong)

lemma get_neighborhood_rand [simp]:
  "get_neighborhood (m\<lparr>rand := r\<rparr>) = get_neighborhood m"
  by (intro ext) (simp add: get_neighborhood_def Let_def)

lemma social_step_rand [simp]: "social_step (m\<lparr>rand := r\<rparr>) = social_step m"
  by (intro ext) (simp add: social_step_def Let_def cong: option.case_cong prod.case_cong)

lemma get_social_utility_rand [simp]:
  "get_social_utility (m\<lparr>rand := r\<rparr>) = get_social_utility m"
  by (intro ext) (simp add: get_social_utility_def Let_def cong: prod.case_cong sum.case_cong)

lemma get_happiness_rand [simp]:
  "get_happiness (m\<lparr>rand := r\<rparr>) = get_happiness m"
  by (intro ext) (simp add: get_happiness_def cong: prod.case_cong sum.case_cong)

lemma get_total_utility_rand [simp]:
  "get_total_utility (m\<lparr>rand := r\<rparr>) = get_total_utility m"
  by (intro ext) (simp add: get_total_utility_def cong: prod.case_cong sum.case_cong)

lemma total_utilities_rand [simp]:
  "total_utilities (m\<lparr>rand := r\<rparr>) stu ps = total_utilities m stu ps"
  by (induction ps) (simp_all cong: sum.case_cong)

lemma seat_options_rand [simp]: "seat_options (m\<lparr>rand := r\<rparr>) = seat_options m"
  by (simp add: seat_options_def)

lemma rescale_finite:
  "fst rng \<noteq> snd rng \<Longrightarrow> \<exists>v. rescale_sociability rng u b = Inr (Fin v)"
  by (simp add: rescale_sociability_def Let_def)

lemma social_utility_finite:
  assumes "fst (sociability_range m) \<noteq> snd (sociability_range m)"
  shows "\<exists>f v. get_social_utility m p stu = Inr (f, Fin v)"
proof -
  let ?acc = "fold (social_step m stu (get_neighborhood m p (fst (shape friendship_interaction_matrix))
                      (snd (shape friendship_interaction_matrix))))
                   (List.product [0..<fst (shape friendship_interaction_matrix)]
                                 [0..<snd (shape friendship_interaction_matrix)]) (0, 0, False)"
  obtain f u b where acc: "?acc = (f, u, b)" by (cases ?acc) auto
  from rescale_finite[OF assms, of u b] obtain v where
    "rescale_sociability (sociability_range m) u b = Inr (Fin v)" by blast
  with acc show ?thesis by (simp add: get_social_utility_def Let_def)
qed

lemma accessibility_finite:
  assumes "max_pass (classroom m) \<noteq> 0"
    and "a \<in> set (aisles_x (classroom m))" "a \<noteq> fst p"
  shows "\<exists>v. get_accessibility m p = Inr (Fin v)"
proof -
  have "filter (\<lambda>i. i < fst p) (aisles_x (classroom m)) \<noteq> []
        \<or> filter (\<lambda>i. fst p < i) (aisles_x (classroom m)) \<noteq> []"
  proof -
    from assms(3) have "a < fst p \<or> fst p < a" by auto
    with assms(2) show ?thesis by (auto simp add: filter_empty_conv)
  qed
  then have "count_left m p \<noteq> \<infinity> \<or> count_right m p \<noteq> \<infinity>"
    by (auto simp add: count_left_def count_right_def Let_def)
  then have "min (count_right m p) (count_left m p) \<noteq> \<infinity>"
    by (cases "count_left m p"; cases "count_right m p") (auto simp add: min_def)
  then obtain n where "min (count_right m p) (count_left m p) = enat n"
    by (cases "min (count_right m p) (count_left m p)") auto
  with assms(1) show ?thesis by (simp add: get_accessibility_def Let_def)
qed

lemma total_utility_finite:
  assumes "max_pass (classroom m) \<noteq> 0"
    and "fst (sociability_range m) \<noteq> snd (sociability_range m)"
    and "a \<in> set (aisles_x (classroom m))" "a \<noteq> fst p"
  shows "\<exists>v. get_total_utility m p stu = Inr (Fin v)"
proof -
  from social_utility_finite[OF assms(2)] obtain f s where
    "get_social_utility m p stu = Inr (f, Fin s)" by blast
  moreover from accessibility_finite[OF assms(1,3,4)] obtain v where
    "get_accessibility m p = Inr (Fin v)" by blast
  ultimately show ?thesis
    by (cases "coefs m") (simp add: get_total_utility_def)
qed


lemma total_utilities_finite:
  assumes "\<And>p. p \<in> set ps \<Longrightarrow> \<exists>v. get_total_utility m p stu = Inr (Fin v)"
  shows "\<exists>rs. total_utilities m stu ps = Inr (map Fin rs) \<and> length rs = length ps
              \<and> (\<forall>i < length ps. get_total_utility m (ps ! i) stu = Inr (Fin (rs ! i)))"
  using assms
proof (induction ps)
  case Nil
  then show ?case by simp
next
  case (Cons p ps)
  from Cons.prems[of p] obtain v where v: "get_total_utility m p stu = Inr (Fin v)" by auto
  from Cons.IH Cons.prems obtain rs where rs: "total_utilities m stu ps = Inr (map Fin rs)"
    "length rs = length ps"
    "\<forall>i < length ps. get_total_utility m (ps ! i) stu = Inr (Fin (rs ! i))"
    by auto
  have "total_utilities m stu (p # ps) = Inr (map Fin (v # rs))" using v rs(1) by simp
  moreover have "length (v # rs) = length (p # ps)" using rs(2) by simp
  moreover have "\<forall>i < length (p # ps).
                   get_total_utility m ((p # ps) ! i) stu = Inr (Fin ((v # rs) ! i))"
    using v rs(3) by (auto simp add: nth_Cons split: nat.splits)
  ultimately show ?case by blast
qed

lemma fold_fmax_finite:
  "fold (\<lambda>u b. fmax b u) (map Fin rs) (Fin b) = Fin (fold max rs b)"
  by (induction rs arbitrary: b) (auto simp add: fmax_def max_def)

lemma np_max_list_finite:
  assumes "rs \<noteq> []"
  shows "np_max_list (map Fin rs) = Fin (Max (set rs))"
proof -
  from assms obtain r rs' where rs: "rs = r # rs'" by (cases rs) auto
  have "np_max_list (map Fin rs) = Fin (fold max rs' r)"
    by (simp add: np_max_list_def rs fold_fmax_finite)
  also have "fold max rs' r = Max (set rs)"
    unfolding rs by (rule Max.set_eq_fold[symmetric])
  finally show ?thesis .
qed

lemma maximizers_finite:
  assumes "length rs = length ps" and "rs \<noteq> []"
  shows "set (maximizers ps (map Fin rs)) = {ps ! i | i. i < length ps \<and> rs ! i = Max (set rs)}"
proof -
  have "set (maximizers ps (map Fin rs))
        = fst ` {su \<in> set (zip ps (map Fin rs)). feq (snd su) (Fin (Max (set rs)))}"
    by (simp add: maximizers_def np_max_list_finite[OF assms(2)])
  also have "\<dots> = {ps ! i | i. i < length ps \<and> rs ! i = Max (set rs)}"
    using assms(1) by (force simp add: set_zip image_iff)
  finally show ?thesis .
qed

lemma commit_seat_succeeds:
  assumes "pos (students m sid) = Some p0" and "Student sid \<in> set (grid m p0)"
    and "\<not> out_of_bounds m q"
    and "fst (sociability_range m) \<noteq> snd (sociability_range m)"
  shows "\<exists>h. commit_seat m sid None q
           = Inr (m\<lparr>grid := moved_grid (grid m) sid p0 q,
                    students := (students m)(sid := (students m sid)
                       \<lparr>pos := Some q, seated := True, initial_happiness := h\<rparr>)\<rparr>)"
proof -
  let ?m2 = "set_seat_student m q (Some sid)"
  let ?g2 = "(grid ?m2)(p0 := remove1 (Student sid) (grid ?m2 p0))"
  let ?m3 = "?m2\<lparr>grid := ?g2(q := ?g2 q @ [Student sid]),
                  students := (students ?m2)(sid := (students ?m2 sid)\<lparr>pos := Some q\<rparr>)\<rparr>"
  have in2: "Student sid \<in> set (grid ?m2 p0)"
    using assms(2) by (auto simp add: set_seat_student_def image_iff intro!: bexI[of _ "Student sid"])
  have mv: "move_agent ?m2 sid q = Inr ?m3"
    using assms(1,3) in2
    by (simp add: move_agent_def place_agent_def out_of_bounds_def set_seat_student_def)
  have "fst (sociability_range ?m3) \<noteq> snd (sociability_range ?m3)"
    using assms(4) by (simp add: set_seat_student_def)
  from social_utility_finite[OF this, of q "students ?m3 sid"] obtain f v where
    "get_social_utility ?m3 q (students ?m3 sid) = Inr (f, Fin v)" by blast
  then obtain h where h: "get_happiness ?m3 q (students ?m3 sid) = Inr h"
    by (cases "coefs ?m3") (simp add: get_happiness_def)
  have "commit_seat m sid None q
        = Inr (?m3\<lparr>students := (students ?m3)
                (sid := (students ?m3 sid)\<lparr>seated := True, initial_happiness := h\<rparr>)\<rparr>)"
    using mv h by (simp add: commit_seat_def Let_def)
  also have "?m3\<lparr>students := (students ?m3)
                (sid := (students ?m3 sid)\<lparr>seated := True, initial_happiness := h\<rparr>)\<rparr>
        = m\<lparr>grid := moved_grid (grid m) sid p0 q,
                    students := (students m)(sid := (students m sid)
                       \<lparr>pos := Some q, seated := True, initial_happiness := h\<rparr>)\<rparr>"
    by (simp add: set_seat_student_def moved_grid_def Let_def)
  finally show ?thesis by blast
qed


lemma select_by_utility:
  assumes "\<not> random_seat_choice m" and "seat_options m \<noteq> []"
    and "total_utilities m (students m sid) (seat_options m) = Inr us"
    and "maximizers (seat_options m) us \<noteq> []"
  shows "select_seat m sid None None
           = Inr (Some (maximizers (seat_options m) us
                          ! (rand m 0 mod length (maximizers (seat_options m) us))),
                  m\<lparr>rand := (\<lambda>i. rand m (Suc i))\<rparr>)"
  using assms by (simp add: select_seat_def rand_choice_def rand_randint_def Let_def)

lemma utility_choice:
  assumes mode: "\<not> random_seat_choice m"
    and free: "seat_options m \<noteq> []"
    and mp: "max_pass (classroom m) \<noteq> 0"
    and rng: "fst (sociability_range m) \<noteq> snd (sociability_range m)"
    and aisle: "\<And>p. p \<in> set (seat_options m) \<Longrightarrow> \<exists>a \<in> set (aisles_x (classroom m)). a \<noteq> fst p"
    and placed: "pos (students m sid) = Some p0" "Student sid \<in> set (grid m p0)"
  obtains rs where
    "length rs = length (seat_options m)"
    "\<And>i. i < length (seat_options m) \<Longrightarrow>
       get_total_utility m (seat_options m ! i) (students m sid) = Inr (Fin (rs ! i))"
    "set (maximizers (seat_options m) (map Fin rs))
       = {seat_options m ! i | i. i < length (seat_options m) \<and> rs ! i = Max (set rs)}"
    "maximizers (seat_options m) (map Fin rs) \<noteq> []"
    "\<And>r. \<exists>h. choose_seat (m\<lparr>rand := r\<rparr>) sid None None
         = Inr (m\<lparr>rand := (\<lambda>i. r (Suc i)),
                  grid := moved_grid (grid m) sid p0
                            (maximizers (seat_options m) (map Fin rs)
                               ! (r 0 mod length (maximizers (seat_options m) (map Fin rs)))),
                  students := (students m)(sid := (students m sid)
                     \<lparr>pos := Some (maximizers (seat_options m) (map Fin rs)
                               ! (r 0 mod length (maximizers (seat_options m) (map Fin rs)))),
                      seated := True, initial_happiness := h\<rparr>)\<rparr>)"
proof -
  let ?opts = "seat_options m" and ?stu = "students m sid"
  have fin: "\<And>p. p \<in> set ?opts \<Longrightarrow> \<exists>v. get_total_utility m p ?stu = Inr (Fin v)"
    using aisle total_utility_finite[OF mp rng] by blast
  from total_utilities_finite[of ?opts m ?stu, OF fin] obtain rs where
    tu: "total_utilities m ?stu ?opts = Inr (map Fin rs)" and len: "length rs = length ?opts"
    and each: "\<forall>i < length ?opts. get_total_utility m (?opts ! i) ?stu = Inr (Fin (rs ! i))"
    by blast
  have ne: "rs \<noteq> []" using len free by auto
  let ?M = "maximizers ?opts (map Fin rs)"
  note ms = maximizers_finite[OF len ne]
  have "Max (set rs) \<in> set rs" using ne by simp
  then obtain i where "i < length rs" "rs ! i = Max (set rs)" by (auto simp add: in_set_conv_nth)
  then have "?opts ! i \<in> set ?M" using ms len by auto
  then have Mne: "?M \<noteq> []" by auto
  have ch: "\<exists>h. choose_seat (m\<lparr>rand := r\<rparr>) sid None None
         = Inr (m\<lparr>rand := (\<lambda>i. r (Suc i)),
                  grid := moved_grid (grid m) sid p0 (?M ! (r 0 mod length ?M)),
                  students := (students m)(sid := (students m sid)
                     \<lparr>pos := Some (?M ! (r 0 mod length ?M)),
                      seated := True, initial_happiness := h\<rparr>)\<rparr>)" for r
  proof -
    let ?m = "m\<lparr>rand := r\<rparr>"
    let ?q = "?M ! (r 0 mod length ?M)"
    let ?m1 = "?m\<lparr>rand := (\<lambda>i. rand ?m (Suc i))\<rparr>"
    have sel: "select_seat ?m sid None None = Inr (Some ?q, ?m1)"
      using select_by_utility[of ?m sid "map Fin rs"] mode free tu Mne by simp
    have "?q \<in> set ?M" using Mne by simp
    then have "?q \<in> set ?opts" using set_maximizers by blast
    then have oob: "\<not> out_of_bounds ?m1 ?q" using free_seat_option by simp
    from commit_seat_succeeds[of ?m1 sid p0 ?q] placed oob rng obtain h where
      "commit_seat ?m1 sid None ?q
         = Inr (?m1\<lparr>grid := moved_grid (grid ?m1) sid p0 ?q,
                    students := (students ?m1)(sid := (students ?m1 sid)
                       \<lparr>pos := Some ?q, seated := True, initial_happiness := h\<rparr>)\<rparr>)"
      by auto
    with sel show ?thesis by (auto simp add: choose_seat_def)
  qed
  show ?thesis
    by (rule that[of rs]) (use len each ms Mne ch in auto)
qed


text \<open>
  Apart from the failing inputs of C1, the utility-driven choice is as the claim says.
  Where \<^verbatim>\<open>max_pass\<close> is not 0, the sociability range is not a single value and every
  free seat has an aisle in its row (so that all total utilities are finite numbers),
  a student who stands on the grid is committed to a free seat whose total utility is
  the maximum over the free seats.
\<close>

lemma choice_maximizes_utility:
  assumes mode: "\<not> random_seat_choice m"
    and free: "seat_options m \<noteq> []"
    and mp: "max_pass (classroom m) \<noteq> 0"
    and rng: "fst (sociability_range m) \<noteq> snd (sociability_range m)"
    and aisle: "\<And>p. p \<in> set (seat_options m) \<Longrightarrow> \<exists>a \<in> set (aisles_x (classroom m)). a \<noteq> fst p"
    and placed: "pos (students m sid) = Some p0" "Student sid \<in> set (grid m p0)"
  shows "\<exists>q u m'. choose_seat m sid None None = Inr m'
           \<and> q \<in> set (seat_options m)
           \<and> get_total_utility m q (students m sid) = Inr (Fin u)
           \<and> (\<forall>p \<in> set (seat_options m).
                 \<exists>v. get_total_utility m p (students m sid) = Inr (Fin v) \<and> v \<le> u)
           \<and> Seat (Some sid) \<in> set (grid m' q) \<and> seated (students m' sid)
           \<and> pos (students m' sid) = Some q"
  using mode free mp rng aisle placed
proof (rule utility_choice)
  fix rs
  let ?opts = "seat_options m"
  let ?M = "maximizers ?opts (map Fin rs)"
  let ?q = "?M ! (rand m 0 mod length ?M)"
  assume len: "length rs = length ?opts"
    and each: "\<And>i. i < length ?opts \<Longrightarrow>
       get_total_utility m (?opts ! i) (students m sid) = Inr (Fin (rs ! i))"
    and ms: "set ?M = {?opts ! i | i. i < length ?opts \<and> rs ! i = Max (set rs)}"
    and Mne: "?M \<noteq> []"
    and ch: "\<And>r. \<exists>h. choose_seat (m\<lparr>rand := r\<rparr>) sid None None
         = Inr (m\<lparr>rand := (\<lambda>i. r (Suc i)),
                  grid := moved_grid (grid m) sid p0 (?M ! (r 0 mod length ?M)),
                  students := (students m)(sid := (students m sid)
                     \<lparr>pos := Some (?M ! (r 0 mod length ?M)),
                      seated := True, initial_happiness := h\<rparr>)\<rparr>)"
  from ch[of "rand m"] obtain h where
    c: "choose_seat m sid None None
         = Inr (m\<lparr>rand := (\<lambda>i. rand m (Suc i)),
                  grid := moved_grid (grid m) sid p0 ?q,
                  students := (students m)(sid := (students m sid)
                     \<lparr>pos := Some ?q, seated := True, initial_happiness := h\<rparr>)\<rparr>)"
    by auto
  have "?q \<in> set ?M" using Mne by simp
  then obtain i where i: "i < length ?opts" "?q = ?opts ! i" "rs ! i = Max (set rs)"
    using ms by auto
  have q: "?q \<in> set ?opts" using i by simp
  have u: "get_total_utility m ?q (students m sid) = Inr (Fin (Max (set rs)))"
    using each[OF i(1)] i by simp
  have le: "\<forall>p \<in> set ?opts. \<exists>v. get_total_utility m p (students m sid) = Inr (Fin v)
                 \<and> v \<le> Max (set rs)"
  proof
    fix p assume "p \<in> set ?opts"
    then obtain j where j: "j < length ?opts" "p = ?opts ! j" by (auto simp add: in_set_conv_nth)
    then have "rs ! j \<le> Max (set rs)" using len by simp
    with each[OF j(1)] j show "\<exists>v. get_total_utility m p (students m sid) = Inr (Fin v)
                 \<and> v \<le> Max (set rs)" by auto
  qed
  have "Seat None \<in> set (grid m ?q)" using free_seat_option[OF q] by simp
  then have seat: "Seat (Some sid) \<in> set (moved_grid (grid m) sid p0 ?q ?q)"
    by (auto simp add: moved_grid_seat_self)
  show ?thesis
    by (rule exI[of _ ?q], rule exI[of _ "Max (set rs)"], subst c) (use q u le seat in simp)
qed

text \<open>
  Under the same conditions every free seat whose total utility is the maximum is
  chosen for some draw of the generator: ties are not broken by position.
\<close>

lemma every_maximizer_can_be_chosen:
  assumes mode: "\<not> random_seat_choice m"
    and free: "seat_options m \<noteq> []"
    and mp: "max_pass (classroom m) \<noteq> 0"
    and rng: "fst (sociability_range m) \<noteq> snd (sociability_range m)"
    and aisle: "\<And>p. p \<in> set (seat_options m) \<Longrightarrow> \<exists>a \<in> set (aisles_x (classroom m)). a \<noteq> fst p"
    and placed: "pos (students m sid) = Some p0" "Student sid \<in> set (grid m p0)"
    and q: "q \<in> set (seat_options m)"
      "get_total_utility m q (students m sid) = Inr (Fin u)"
    and best: "\<And>p v. p \<in> set (seat_options m) \<Longrightarrow>
                 get_total_utility m p (students m sid) = Inr (Fin v) \<Longrightarrow> v \<le> u"
  shows "\<exists>r m'. choose_seat (m\<lparr>rand := r\<rparr>) sid None None = Inr m'
           \<and> Seat (Some sid) \<in> set (grid m' q) \<and> seated (students m' sid)
           \<and> pos (students m' sid) = Some q"
  using mode free mp rng aisle placed
proof (rule utility_choice)
  fix rs
  let ?opts = "seat_options m"
  let ?M = "maximizers ?opts (map Fin rs)"
  assume len: "length rs = length ?opts"
    and each: "\<And>i. i < length ?opts \<Longrightarrow>
       get_total_utility m (?opts ! i) (students m sid) = Inr (Fin (rs ! i))"
    and ms: "set ?M = {?opts ! i | i. i < length ?opts \<and> rs ! i = Max (set rs)}"
    and Mne: "?M \<noteq> []"
    and ch: "\<And>r. \<exists>h. choose_seat (m\<lparr>rand := r\<rparr>) sid None None
         = Inr (m\<lparr>rand := (\<lambda>i. r (Suc i)),
                  grid := moved_grid (grid m) sid p0 (?M ! (r 0 mod length ?M)),
                  students := (students m)(sid := (students m sid)
                     \<lparr>pos := Some (?M ! (r 0 mod length ?M)),
                      seated := True, initial_happiness := h\<rparr>)\<rparr>)"
  from q(1) obtain j where j: "j < length ?opts" "q = ?opts ! j"
    by (auto simp add: in_set_conv_nth)
  with each[OF j(1)] q(2) have rj: "rs ! j = u" by simp
  have "Max (set rs) = u"
  proof (rule Max_eqI)
    show "finite (set rs)" by simp
    show "u \<in> set rs" using rj j(1) len by (auto simp add: in_set_conv_nth)
    fix v assume "v \<in> set rs"
    then obtain k where k: "k < length ?opts" "v = rs ! k"
      using len by (auto simp add: in_set_conv_nth)
    from best[OF _ each[OF k(1)]] k show "v \<le> u" by simp
  qed
  with j rj have "q \<in> set ?M" using ms by auto
  then obtain i where i: "i < length ?M" "?M ! i = q" by (auto simp add: in_set_conv_nth)
  from ch[of "\<lambda>n. i"] i obtain h where
    c: "choose_seat (m\<lparr>rand := (\<lambda>n. i)\<rparr>) sid None None
         = Inr (m\<lparr>rand := (\<lambda>n. i),
                  grid := moved_grid (grid m) sid p0 q,
                  students := (students m)(sid := (students m sid)
                     \<lparr>pos := Some q, seated := True, initial_happiness := h\<rparr>)\<rparr>)"
    by auto
  have "Seat None \<in> set (grid m q)" using free_seat_option[OF q(1)] by simp
  then have seat: "Seat (Some sid) \<in> set (moved_grid (grid m) sid p0 q q)"
    by (auto simp add: moved_grid_seat_self)
  show ?thesis
    by (rule exI[of _ "\<lambda>n. i"], subst c) (use seat in simp)
qed

end
